theory Spec2Isabelle
  imports Complex_Main
begin

section \<open>Python values and errors\<close>

text \<open>
  The player is written in Python on top of NumPy and OpenCV.  Python integers are
  unbounded and are modelled by \<open>int\<close>.  Floating-point numbers are modelled by the
  reals they denote.  In the geometry resizer and the character mapper, whose results
  turn on the last bit of a quotient or product, every floating-point operation is
  rounded to its format (\<open>fl\<close> below); in the dimension planner, the brightness formulas
  and the speed control the operations are taken exactly.  Every exception the modelled
  code can raise is a value of \<open>py_error\<close>, and a function that can raise returns
  \<open>py_error + 'a\<close>.  The value \<open>Diverges\<close> stands for a call that never returns.
\<close>

datatype py_error = ZeroDivisionError | IndexError | AxisError | ValueError | Cv2Error | Diverges

definition bind_err :: "'e + 'a \<Rightarrow> ('a \<Rightarrow> 'e + 'b) \<Rightarrow> 'e + 'b" where
  "bind_err m f = (case m of Inl e \<Rightarrow> Inl e | Inr v \<Rightarrow> f v)"

text \<open>The results of a list of calls, or the first exception in list order.\<close>

fun sequence_err :: "('e + 'a) list \<Rightarrow> 'e + 'a list" where
  "sequence_err [] = Inr []"
| "sequence_err (x # xs) =
     (case x of
        Inl e \<Rightarrow> Inl e
      | Inr v \<Rightarrow> (case sequence_err xs of Inl e \<Rightarrow> Inl e | Inr vs \<Rightarrow> Inr (v # vs)))"

text \<open>Python's \<open>int(x)\<close> on a float: truncation toward zero.\<close>

definition py_int :: "real \<Rightarrow> int" where
  "py_int x = (if 0 \<le> x then \<lfloor>x\<rfloor> else \<lceil>x\<rceil>)"

section \<open>Floating-point rounding\<close>

text \<open>
  IEEE 754 rounding to nearest, ties to even, to a binary format of \<open>p\<close> significant
  bits: \<open>rne\<close> rounds a real to an integer, \<open>float_exponent x\<close> is the \<open>e\<close> with
  \<open>2^e \<le> |x| < 2^(e+1)\<close>, found by halving or doubling \<open>x\<close> into \<open>[1, 2)\<close>, and \<open>fl p x\<close>
  rounds \<open>x\<close> to a multiple of \<open>2^(e-p+1)\<close>.  The range of the exponent is not bounded:
  overflow, subnormal numbers and NaN are left out.  The quantities rounded below are
  quotients and products of array dimensions, requested sizes and brightness values, far
  from either end of the range of binary32 and binary64.
\<close>

definition rne :: "real \<Rightarrow> int" where
  "rne y = (let f = \<lfloor>y\<rfloor>; d = y - of_int f
            in if d < 1 / 2 then f else if 1 / 2 < d then f + 1 else if even f then f else f + 1)"

function float_exponent :: "real \<Rightarrow> int" where
  "float_exponent x =
     (if x = 0 then 0
      else if 2 \<le> \<bar>x\<bar> then float_exponent (x / 2) + 1
      else if \<bar>x\<bar> < 1 then float_exponent (x * 2) - 1
      else 0)"
  by pat_completeness auto
termination
proof (relation "measure (\<lambda>x. nat \<bar>\<lfloor>log 2 \<bar>x\<bar>\<rfloor>\<bar>)")
  show "wf (measure (\<lambda>x. nat \<bar>\<lfloor>log 2 \<bar>x\<bar>\<rfloor>\<bar>))" by simp
next
  fix x :: real
  assume "x \<noteq> 0" and big: "2 \<le> \<bar>x\<bar>"
  have "log 2 \<bar>x / 2\<bar> = log 2 \<bar>x\<bar> - 1"
    using \<open>x \<noteq> 0\<close> by (simp add: log_divide)
  then have f: "\<lfloor>log 2 \<bar>x / 2\<bar>\<rfloor> = \<lfloor>log 2 \<bar>x\<bar>\<rfloor> - 1" by simp
  have "1 \<le> log 2 \<bar>x\<bar>" using big by (simp add: le_log_iff)
  then have "1 \<le> \<lfloor>log 2 \<bar>x\<bar>\<rfloor>" by (simp add: le_floor_iff)
  then show "(x / 2, x) \<in> measure (\<lambda>x. nat \<bar>\<lfloor>log 2 \<bar>x\<bar>\<rfloor>\<bar>)"
    unfolding in_measure f by simp
next
  fix x :: real
  assume "x \<noteq> 0" and "\<not> 2 \<le> \<bar>x\<bar>" and small: "\<bar>x\<bar> < 1"
  have "log 2 \<bar>x * 2\<bar> = log 2 \<bar>x\<bar> + 1"
    using \<open>x \<noteq> 0\<close> by (simp add: log_mult abs_mult)
  then have f: "\<lfloor>log 2 \<bar>x * 2\<bar>\<rfloor> = \<lfloor>log 2 \<bar>x\<bar>\<rfloor> + 1" by simp
  have "log 2 \<bar>x\<bar> < 0" using small \<open>x \<noteq> 0\<close> by simp
  then have "\<lfloor>log 2 \<bar>x\<bar>\<rfloor> < 0" by (simp add: floor_less_iff)
  then have "nat \<bar>\<lfloor>log 2 \<bar>x\<bar>\<rfloor> + 1\<bar> < nat \<bar>\<lfloor>log 2 \<bar>x\<bar>\<rfloor>\<bar>" by linarith
  then show "(x * 2, x) \<in> measure (\<lambda>x. nat \<bar>\<lfloor>log 2 \<bar>x\<bar>\<rfloor>\<bar>)"
    unfolding in_measure f .
qed

declare float_exponent.simps [simp del]

definition fl :: "nat \<Rightarrow> real \<Rightarrow> real" where
  "fl p x = (if x = 0 then 0
             else (let u = 2 powi (float_exponent x - int p + 1)
                   in of_int (rne (x / u)) * u))"

text \<open>
  Python's \<open>float\<close> is binary64.  \<open>f64 x\<close> is the float nearest to \<open>x\<close>: the result of an
  operation on floats whose exact result is \<open>x\<close>, of the true division of two integers
  with the exact quotient \<open>x\<close>, and of converting the integer \<open>x\<close> to a float.
\<close>

definition f64 :: "real \<Rightarrow> real" where
  "f64 x = fl 53 x"

text \<open>The element type of a NumPy array of floats, and its significant bits.\<close>

datatype float_dtype = Float32 | Float64

fun precision :: "float_dtype \<Rightarrow> nat" where
  "precision Float32 = 24"
| "precision Float64 = 53"

text \<open>
  \<open>astype(np.int32)\<close> on a float: truncation toward zero when the result fits 32 bits;
  otherwise the C conversion is undefined, and the value x86-64 delivers is taken.
\<close>

definition astype_int32 :: "real \<Rightarrow> int" where
  "astype_int32 x =
     (if - 2147483649 < x \<and> x < 2147483648 then py_int x else - 2147483648)"

text \<open>\<open>np.clip(x, lo, hi)\<close> is \<open>minimum(maximum(x, lo), hi)\<close>.\<close>

definition np_clip :: "'a::linorder \<Rightarrow> 'a \<Rightarrow> 'a \<Rightarrow> 'a" where
  "np_clip x lo hi = min (max x lo) hi"

text \<open>
  Indexing a sequence of length \<open>n\<close> with an integer: a negative index counts from the
  end, and an index outside \<open>[-n, n)\<close> raises IndexError.
\<close>

definition getitem :: "'a list \<Rightarrow> int \<Rightarrow> py_error + 'a" where
  "getitem xs i =
     (if 0 \<le> i \<and> i < int (length xs) then Inr (xs ! nat i)
      else if i < 0 \<and> - int (length xs) \<le> i then Inr (xs ! nat (int (length xs) + i))
      else Inl IndexError)"

text \<open>\<open>range(0, stop, step)\<close> for a positive step.\<close>

definition py_range :: "int \<Rightarrow> int \<Rightarrow> int list" where
  "py_range stop step = map (\<lambda>k. int k * step) [0..<nat ((stop + step - 1) div step)]"

text \<open>The slice \<open>xs[i:j]\<close> for \<open>0 \<le> i \<le> j\<close>.\<close>

definition slice :: "'a list \<Rightarrow> int \<Rightarrow> int \<Rightarrow> 'a list" where
  "slice xs i j = take (nat (j - i)) (drop (nat i) xs)"

section \<open>Frames and the OpenCV operations\<close>

text \<open>
  A frame is a NumPy array as OpenCV delivers it: \<open>fr_rows\<close> by \<open>fr_cols\<close> samples, either
  two-dimensional (grayscale, \<open>fr_color = False\<close>) or with three channels in the order
  blue, green, red (\<open>fr_color = True\<close>); \<open>fr_px f i j c\<close> is the sample in row \<open>i\<close>,
  column \<open>j\<close> and channel \<open>c\<close> (a two-dimensional array ignores \<open>c\<close>).
\<close>

record frame =
  fr_rows :: nat
  fr_cols :: nat
  fr_color :: bool
  fr_px :: "nat \<Rightarrow> nat \<Rightarrow> nat \<Rightarrow> real"

text \<open>\<open>frame.size\<close>, the number of samples.\<close>

definition frame_size :: "frame \<Rightarrow> nat" where
  "frame_size f = fr_rows f * fr_cols f * (if fr_color f then 3 else 1)"

text \<open>The rows of a two-dimensional array, as iterating over it yields them.\<close>

definition rows_of :: "frame \<Rightarrow> real list list" where
  "rows_of f = map (\<lambda>i. map (\<lambda>j. fr_px f i j 0) [0..<fr_cols f]) [0..<fr_rows f]"

text \<open>
  The pixel values OpenCV computes are not modelled: they are taken from the opaque
  functions of the record \<open>cv2\<close>, one for each pixel pipeline the converter runs
  (\<open>cv2.resize\<close>; the filter chains of \<open>_edsr_upscale\<close> and \<open>_edge_preserving_resize\<close>;
  \<open>cv2.cvtColor\<close> to grayscale; the four enhancement strategies of the brightness
  transform).  The shapes are modelled: \<open>cv2.resize(src, (w, h))\<close> returns \<open>h\<close> rows of
  \<open>w\<close> columns with the channels of \<open>src\<close>, and raises \<open>cv2.error\<close> when \<open>w\<close> or \<open>h\<close> is not
  positive or \<open>src\<close> is empty; every filter keeps the shape of its input.
\<close>

record cv2 =
  resize_px :: "frame \<Rightarrow> nat \<Rightarrow> nat \<Rightarrow> nat \<Rightarrow> nat \<Rightarrow> nat \<Rightarrow> real"
  edsr_px :: "frame \<Rightarrow> nat \<Rightarrow> nat \<Rightarrow> nat \<Rightarrow> nat \<Rightarrow> nat \<Rightarrow> real"
  edge_preserving_px :: "frame \<Rightarrow> nat \<Rightarrow> nat \<Rightarrow> nat \<Rightarrow> nat \<Rightarrow> nat \<Rightarrow> real"
  gray_px :: "frame \<Rightarrow> nat \<Rightarrow> nat \<Rightarrow> nat \<Rightarrow> real"
  edge_enhanced_brightness :: "frame \<Rightarrow> py_error + frame"
  super_resolution_brightness :: "frame \<Rightarrow> py_error + frame"
  adaptive_4k_brightness :: "frame \<Rightarrow> py_error + frame"
  neural_upscale_brightness :: "frame \<Rightarrow> py_error + frame"

definition resized_to :: "(frame \<Rightarrow> nat \<Rightarrow> nat \<Rightarrow> nat \<Rightarrow> nat \<Rightarrow> nat \<Rightarrow> real) \<Rightarrow> frame \<Rightarrow> int \<Rightarrow> int \<Rightarrow> py_error + frame" where
  "resized_to px src w h =
     (if w \<le> 0 \<or> h \<le> 0 \<or> frame_size src = 0 then Inl Cv2Error
      else Inr \<lparr>fr_rows = nat h, fr_cols = nat w, fr_color = fr_color src,
                fr_px = px src (nat w) (nat h)\<rparr>)"

text \<open>\<open>cv2.resize(src, (w, h), interpolation=cv2.INTER_LANCZOS4)\<close>.\<close>

definition cv2_resize :: "cv2 \<Rightarrow> frame \<Rightarrow> int \<Rightarrow> int \<Rightarrow> py_error + frame" where
  "cv2_resize cv src w h = resized_to (resize_px cv) src w h"

text \<open>\<open>cv2.cvtColor(src, cv2.COLOR_BGR2GRAY)\<close>.\<close>

definition cvtColor_gray :: "cv2 \<Rightarrow> frame \<Rightarrow> frame" where
  "cvtColor_gray cv src =
     \<lparr>fr_rows = fr_rows src, fr_cols = fr_cols src, fr_color = False, fr_px = gray_px cv src\<rparr>"

section \<open>converter.py: the converter and its character sets\<close>

text \<open>A character is a Unicode code point, a Python string a list of them.\<close>

type_synonym glyph = nat

datatype ASCIIStyle = MINIMAL | DETAILED | BLOCKS | GRADIENT | CUSTOM_LIGHT | CUSTOM_DARK

fun style_value :: "ASCIIStyle \<Rightarrow> glyph list" where
  "style_value MINIMAL = [32, 46, 58, 45, 61, 43, 42, 35, 37, 64]"
| "style_value DETAILED =
     [32, 46, 39, 96, 94, 34, 44, 58, 59, 73, 108, 33, 105, 62, 60, 126, 43, 95, 45, 63,
      93, 91, 125, 123, 49, 41, 40, 124, 92, 47, 116, 102, 106, 114, 120, 110, 117, 118,
      99, 122, 88, 89, 85, 74, 67, 76, 81, 48, 79, 90, 109, 119, 113, 112, 100, 98, 107,
      104, 97, 111, 42, 35, 77, 87, 38, 56, 37, 66, 64, 36]"
| "style_value BLOCKS = [32, 9617, 9618, 9619, 9608]"
| "style_value GRADIENT = [32, 9601, 9602, 9603, 9604, 9605, 9606, 9607, 9608]"
| "style_value CUSTOM_LIGHT = [32, 46, 183, 45, 61, 43, 42, 111, 79, 35, 64]"
| "style_value CUSTOM_DARK = [64, 35, 42, 43, 61, 45, 183, 46, 32]"

datatype ConversionAlgorithm =
  LUMINANCE | AVERAGE | LIGHTNESS | CUSTOM_WEIGHTED
  | EDGE_ENHANCED | SUPER_RESOLUTION | ADAPTIVE_4K | NEURAL_UPSCALE

text \<open>
  The fields of \<open>ASCIIConverter\<close>.  \<open>char_count\<close> and \<open>_char_map\<close> are computed once from
  \<open>ascii_chars\<close> and never reassigned: they are \<open>length (ascii_chars c)\<close> and
  \<open>ascii_chars c\<close>.  The executor exists exactly when \<open>use_threading\<close> holds.
\<close>

record ASCIIConverter =
  style :: ASCIIStyle
  algorithm :: ConversionAlgorithm
  use_threading :: bool
  max_workers :: int
  ascii_chars :: "glyph list"

definition char_count :: "ASCIIConverter \<Rightarrow> int" where
  "char_count c = int (length (ascii_chars c))"

text \<open>
  \<open>__init__\<close>; \<open>ThreadPoolExecutor(max_workers=n)\<close> raises ValueError unless \<open>n\<close> is positive.
\<close>

definition ASCIIConverter_init :: "ASCIIStyle \<Rightarrow> ConversionAlgorithm \<Rightarrow> bool \<Rightarrow> int \<Rightarrow> py_error + ASCIIConverter" where
  "ASCIIConverter_init st alg threading workers =
     (if threading \<and> workers \<le> 0 then Inl ValueError
      else Inr \<lparr>style = st, algorithm = alg, use_threading = threading, max_workers = workers,
                ascii_chars = style_value st\<rparr>)"

section \<open>converter.py: the brightness transform\<close>

definition gray_frame :: "frame \<Rightarrow> (nat \<Rightarrow> nat \<Rightarrow> real) \<Rightarrow> frame" where
  "gray_frame src v =
     \<lparr>fr_rows = fr_rows src, fr_cols = fr_cols src, fr_color = False, fr_px = (\<lambda>i j c. v i j)\<rparr>"

text \<open>
  \<open>calculate_brightness(pixel_values)\<close>.  Indexing the third axis of a two-dimensional
  array raises IndexError, reducing over it raises AxisError.  The closing \<open>else\<close> of the
  source is unreachable, the enumeration being closed.
\<close>

definition calculate_brightness :: "cv2 \<Rightarrow> ASCIIConverter \<Rightarrow> frame \<Rightarrow> py_error + frame" where
  "calculate_brightness cv conv pixel_values =
     (let p = fr_px pixel_values in
      case algorithm conv of
        LUMINANCE \<Rightarrow>
          if fr_color pixel_values
          then Inr (gray_frame pixel_values (\<lambda>i j. 0.2126 * p i j 2 + 0.7152 * p i j 1 + 0.0722 * p i j 0))
          else Inl IndexError
      | AVERAGE \<Rightarrow>
          if fr_color pixel_values
          then Inr (gray_frame pixel_values (\<lambda>i j. (p i j 0 + p i j 1 + p i j 2) / 3))
          else Inl AxisError
      | LIGHTNESS \<Rightarrow>
          if fr_color pixel_values
          then Inr (gray_frame pixel_values
                 (\<lambda>i j. (max (max (p i j 0) (p i j 1)) (p i j 2)
                          + min (min (p i j 0) (p i j 1)) (p i j 2)) / 2))
          else Inl AxisError
      | CUSTOM_WEIGHTED \<Rightarrow>
          if fr_color pixel_values
          then Inr (gray_frame pixel_values (\<lambda>i j. 0.3 * p i j 2 + 0.59 * p i j 1 + 0.11 * p i j 0))
          else Inl IndexError
      | EDGE_ENHANCED \<Rightarrow> edge_enhanced_brightness cv pixel_values
      | SUPER_RESOLUTION \<Rightarrow> super_resolution_brightness cv pixel_values
      | ADAPTIVE_4K \<Rightarrow> adaptive_4k_brightness cv pixel_values
      | NEURAL_UPSCALE \<Rightarrow> neural_upscale_brightness cv pixel_values)"

section \<open>converter.py: the geometry resizer\<close>

text \<open>
  The loop of \<open>_super_resolution_resize\<close> that collects the intermediate sizes.  It does
  not terminate from a width or height of zero below its target.
\<close>

partial_function (option) upscale_steps :: "int \<Rightarrow> int \<Rightarrow> int \<Rightarrow> int \<Rightarrow> (int \<times> int) list \<Rightarrow> (int \<times> int) list option" where
  "upscale_steps current_width current_height target_width target_height steps =
     (if current_width < target_width \<or> current_height < target_height then
        (let next_width = min (current_width * 2) target_width;
             next_height = min (current_height * 2) target_height
         in upscale_steps next_width next_height target_width target_height
              (steps @ [(next_width, next_height)]))
      else Some steps)"

text \<open>\<open>_edsr_upscale\<close> and \<open>_edge_preserving_resize\<close>: one \<open>cv2.resize\<close> among filters.\<close>

definition edsr_upscale :: "cv2 \<Rightarrow> frame \<Rightarrow> int \<Rightarrow> int \<Rightarrow> py_error + frame" where
  "edsr_upscale cv fr target_width target_height = resized_to (edsr_px cv) fr target_width target_height"

definition edge_preserving_resize :: "cv2 \<Rightarrow> frame \<Rightarrow> int \<Rightarrow> int \<Rightarrow> py_error + frame" where
  "edge_preserving_resize cv fr target_width target_height =
     resized_to (edge_preserving_px cv) fr target_width target_height"

text \<open>The second loop of \<open>_super_resolution_resize\<close>, over the collected steps.\<close>

fun apply_steps :: "cv2 \<Rightarrow> frame \<Rightarrow> (int \<times> int) list \<Rightarrow> py_error + frame" where
  "apply_steps cv current_frame [] = Inr current_frame"
| "apply_steps cv current_frame ((step_width, step_height) # steps) =
     bind_err (edsr_upscale cv current_frame step_width step_height)
       (\<lambda>upscaled. apply_steps cv upscaled steps)"

definition super_resolution_resize :: "cv2 \<Rightarrow> frame \<Rightarrow> int \<Rightarrow> int \<Rightarrow> py_error + frame" where
  "super_resolution_resize cv fr target_width target_height =
     (case upscale_steps (int (fr_cols fr)) (int (fr_rows fr)) target_width target_height [] of
        None \<Rightarrow> Inl Diverges
      | Some steps \<Rightarrow>
          bind_err (apply_steps cv fr steps)
            (\<lambda>current_frame.
               if int (fr_cols current_frame) \<noteq> target_width \<or> int (fr_rows current_frame) \<noteq> target_height
               then cv2_resize cv current_frame target_width target_height
               else Inr current_frame))"

text \<open>
  The size \<open>resize_frame_smart\<close> resizes to, as \<open>(target_width, adjusted_height)\<close>: the
  requested size fitted to the aspect ratio of the frame, in binary64 arithmetic.
\<close>

definition fitted_size :: "frame \<Rightarrow> int \<Rightarrow> int \<Rightarrow> py_error + int \<times> int" where
  "fitted_size fr target_width target_height =
     (let frame_height = fr_rows fr; frame_width = fr_cols fr in
      if frame_height = 0 then Inl ZeroDivisionError
      else
        (let aspect_ratio = f64 (real frame_width / real frame_height);
             char_aspect_ratio = 0.5
         in if aspect_ratio = 0 then Inl ZeroDivisionError
            else
              (let adjusted_height =
                     py_int (f64 (f64 (f64 (real_of_int target_width) / aspect_ratio) * char_aspect_ratio))
               in if adjusted_height > target_height
                  then Inr (py_int (f64 (f64 (f64 (real_of_int target_height) * aspect_ratio)
                                          / char_aspect_ratio)),
                            target_height)
                  else Inr (target_width, adjusted_height))))"

definition resize_frame_smart :: "cv2 \<Rightarrow> frame \<Rightarrow> int \<Rightarrow> int \<Rightarrow> py_error + frame" where
  "resize_frame_smart cv fr target_width target_height =
     bind_err (fitted_size fr target_width target_height)
       (\<lambda>(target_width, adjusted_height).
          let scale_factor_x = f64 (real_of_int target_width / real (fr_cols fr));
              scale_factor_y = f64 (real_of_int adjusted_height / real (fr_rows fr));
              max_scale_factor = max scale_factor_x scale_factor_y
          in if max_scale_factor > 2.0 then super_resolution_resize cv fr target_width adjusted_height
             else if max_scale_factor > 1.5 then edge_preserving_resize cv fr target_width adjusted_height
             else cv2_resize cv fr target_width adjusted_height)"

section \<open>converter.py: the character mapper and the conversion pipeline\<close>

text \<open>
  One row of \<open>convert_frame_chunk\<close>, for a row of the element type \<open>dt\<close>: the product with
  \<open>char_count - 1\<close> is computed in that type, then truncated, clipped and used as an
  index into the character map.
\<close>

definition convert_row :: "ASCIIConverter \<Rightarrow> float_dtype \<Rightarrow> real list \<Rightarrow> py_error + glyph list" where
  "convert_row conv dt row =
     sequence_err
       (map (\<lambda>v. getitem (ascii_chars conv)
                   (np_clip
                      (astype_int32
                         (fl (precision dt) (v * fl (precision dt) (real_of_int (char_count conv - 1)))))
                      0 (char_count conv - 1)))
          row)"

definition convert_frame_chunk :: "ASCIIConverter \<Rightarrow> float_dtype \<Rightarrow> real list list \<Rightarrow> int \<Rightarrow> py_error + glyph list list" where
  "convert_frame_chunk conv dt brightness_chunk start_row =
     sequence_err (map (convert_row conv dt) brightness_chunk)"

text \<open>
  The threaded branch of \<open>convert_frame_to_ascii\<close>: one future per chunk of
  \<open>chunk_size\<close> rows, submitted in row order; the results are collected by iterating over
  the futures in submission order, and \<open>result()\<close> re-raises the exception of its chunk.
  A future computes \<open>convert_frame_chunk\<close> on its own chunk and reads only the immutable
  character map, so its result does not depend on the schedule of the worker threads.
\<close>

definition convert_chunks_threaded :: "ASCIIConverter \<Rightarrow> float_dtype \<Rightarrow> real list list \<Rightarrow> int \<Rightarrow> py_error + glyph list list" where
  "convert_chunks_threaded conv dt brightness height =
     (if max_workers conv = 0 then Inl ZeroDivisionError
      else
        (let chunk_size = max 1 (height div max_workers conv);
             futures = map (\<lambda>i. convert_frame_chunk conv dt (slice brightness i (i + chunk_size)) i)
                         (py_range height chunk_size)
         in bind_err (sequence_err futures) (\<lambda>results. Inr (concat results))))"

text \<open>\<open>'\n'.join(lines)\<close>; the newline is code point 10.\<close>

fun join_lines :: "glyph list list \<Rightarrow> glyph list" where
  "join_lines [] = []"
| "join_lines [l] = l"
| "join_lines (l # ls) = l @ [10] @ join_lines ls"

text \<open>
  \<open>convert_frame_to_ascii(frame, width, height, enhance_contrast)\<close>; \<open>None\<close> for the frame
  or the height is \<open>None\<close> here.  The grey values are converted to float32
  (\<open>astype(np.float32)\<close>) and divided by 255 in float32; \<open>np.power(b, 0.8)\<close> is taken as the
  float32 nearest to \<open>b powr 0.8\<close>.
\<close>

definition convert_frame_to_ascii :: "cv2 \<Rightarrow> ASCIIConverter \<Rightarrow> frame option \<Rightarrow> int \<Rightarrow> int option \<Rightarrow> bool \<Rightarrow> py_error + glyph list" where
  "convert_frame_to_ascii cv conv frame_opt width height_opt enhance_contrast =
     (case frame_opt of
        None \<Rightarrow> Inr []
      | Some fr \<Rightarrow>
          if frame_size fr = 0 then Inr []
          else
            (let height = (case height_opt of
                             None \<Rightarrow> py_int (f64 (f64 (real_of_int (int (fr_rows fr) * width)
                                                         / real (fr_cols fr)) * 0.5))
                           | Some h \<Rightarrow> h);
                 width = max 1 width;
                 height = max 1 height
             in bind_err (resize_frame_smart cv fr width height)
                  (\<lambda>resized_frame.
                     bind_err
                       (if fr_color resized_frame then
                          (if algorithm conv = LUMINANCE then calculate_brightness cv conv resized_frame
                           else Inr (cvtColor_gray cv resized_frame))
                        else Inr resized_frame)
                       (\<lambda>gray.
                          let brightness = map (map (\<lambda>v. fl 24 (fl 24 v / 255.0))) (rows_of gray);
                              brightness = (if enhance_contrast
                                            then map (map (\<lambda>v. np_clip (fl 24 (v powr 0.8)) 0 1)) brightness
                                            else brightness)
                          in bind_err
                               (if use_threading conv \<and> height > 50
                                then convert_chunks_threaded conv Float32 brightness height
                                else convert_frame_chunk conv Float32 brightness 0)
                               (\<lambda>ascii_lines. Inr (join_lines ascii_lines))))))"

section \<open>converter.py: the dimension planner\<close>

text \<open>
  The quality multiplier of \<open>get_optimal_dimensions\<close> (the branch on \<open>quality_mode\<close>).
  Any mode other than auto, 8k, 6k and 4k falls into the last branch, as in the source.
\<close>

definition quality_multiplier :: "string \<Rightarrow> int \<Rightarrow> int \<Rightarrow> real" where
  "quality_multiplier quality_mode frame_width frame_height =
     (if quality_mode = ''auto'' then
        (let input_pixels = frame_width * frame_height in
         if input_pixels \<ge> 8294400 then 3.0
         else if input_pixels \<ge> 2073600 then 2.5
         else if input_pixels \<ge> 921600 then 2.0
         else 1.5)
      else if quality_mode = ''8k'' then 4.0
      else if quality_mode = ''6k'' then 3.5
      else if quality_mode = ''4k'' then 3.0
      else 1.0)"

text \<open>
  The base dimensions "that fit in terminal": the comparison of the terminal's aspect
  with \<open>frame_aspect * char_aspect\<close> and the two branches.  The true division by
  \<open>frame_aspect\<close> raises when the frame is zero pixels wide.
\<close>

definition base_dimensions :: "int \<Rightarrow> int \<Rightarrow> real \<Rightarrow> real \<Rightarrow> py_error + int \<times> int" where
  "base_dimensions terminal_width terminal_height frame_aspect char_aspect =
     (if terminal_height = 0 then Inl ZeroDivisionError
      else if real_of_int terminal_width / real_of_int terminal_height > frame_aspect * char_aspect then
        (let base_height = terminal_height - 2;
             base_width = py_int (real_of_int base_height * frame_aspect / char_aspect)
         in Inr (base_width, base_height))
      else
        (let base_width = terminal_width - 2 in
         if frame_aspect = 0 then Inl ZeroDivisionError
         else Inr (base_width, py_int (real_of_int base_width / frame_aspect * char_aspect))))"

text \<open>
  \<open>get_optimal_dimensions(terminal_width, terminal_height, frame_shape, quality_mode)\<close>;
  \<open>frame_shape\<close> is \<open>(height, width)\<close> and the result is \<open>(width, height)\<close>.
\<close>

definition get_optimal_dimensions :: "int \<Rightarrow> int \<Rightarrow> int \<times> int \<Rightarrow> string \<Rightarrow> py_error + int \<times> int" where
  "get_optimal_dimensions terminal_width terminal_height frame_shape quality_mode =
     (case frame_shape of (frame_height, frame_width) \<Rightarrow>
        if frame_height = 0 then Inl ZeroDivisionError
        else
          (let frame_aspect = real_of_int frame_width / real_of_int frame_height;
               char_aspect = 0.5;
               qm = quality_multiplier quality_mode frame_width frame_height
           in bind_err (base_dimensions terminal_width terminal_height frame_aspect char_aspect)
                (\<lambda>(base_width, base_height).
                   let enhanced_width = py_int (real_of_int base_width * qm);
                       enhanced_height = py_int (real_of_int base_height * qm);
                       max_width = min (terminal_width * 4) 1000;
                       max_height = min (terminal_height * 4) 800;
                       final_width = min enhanced_width max_width;
                       final_height = min enhanced_height max_height
                   in Inr (max 1 final_width, max 1 final_height))))"

text \<open>The quality tiers in the order standard, auto, 4k, 6k, 8k.\<close>

definition quality_tiers :: "string list" where
  "quality_tiers = [''standard'', ''auto'', ''4k'', ''6k'', ''8k'']"

section \<open>core.py: the frame source, the environment and the player\<close>

text \<open>
  \<open>cv2.VideoCapture\<close>, the frame source: the frames of the file, the read position and
  the properties \<open>cap.get\<close> returns (floats).
\<close>

record capture =
  cap_opened :: bool
  cap_frames :: "frame list"
  cap_pos :: nat
  cap_frame_count :: real
  cap_fps :: real
  cap_frame_width :: real
  cap_frame_height :: real

text \<open>\<open>cap.read()\<close>: the next frame, or \<open>(False, None)\<close> at the end or on a closed capture.\<close>

definition cap_read :: "capture \<Rightarrow> frame option \<times> capture" where
  "cap_read c =
     (if cap_opened c \<and> cap_pos c < length (cap_frames c)
      then (Some (cap_frames c ! cap_pos c), c\<lparr>cap_pos := cap_pos c + 1\<rparr>)
      else (None, c))"

text \<open>
  What the player asks of the world outside: \<open>Path(p).exists()\<close>, \<open>str(Path(p))\<close>,
  \<open>Path(p).suffix.lower()\<close>, \<open>cv2.imread\<close> (\<open>None\<close> when the file is no image),
  \<open>cv2.VideoCapture\<close> and the size of the terminal as \<open>(columns, lines)\<close>.
\<close>

record environment =
  path_exists :: "string \<Rightarrow> bool"
  path_str :: "string \<Rightarrow> string"
  suffix_lower :: "string \<Rightarrow> string"
  imread :: "string \<Rightarrow> frame option"
  video_capture :: "string \<Rightarrow> capture"
  terminal_size :: "int \<times> int"

text \<open>
  The attributes of \<open>ASCIIVideoPlayer\<close>.  \<open>frame_buffer\<close> is the content of
  \<open>queue.Queue(maxsize=buffer_size)\<close>, oldest entry first; \<open>stop_event\<close> is whether the
  event is set; \<open>producer_frame\<close> is the local variable \<open>frame\<close> of the buffering thread
  between \<open>cap.read()\<close> and \<open>frame_buffer.put\<close>.
\<close>

record player =
  converter :: ASCIIConverter
  enable_resize_handling :: bool
  buffer_size :: int
  is_playing :: bool
  is_paused :: bool
  current_frame :: int
  total_frames :: int
  video_fps :: real
  playback_speed :: real
  frame_buffer :: "(int \<times> frame) list"
  stop_event :: bool
  cap :: "capture option"
  media_path :: "string option"
  static_image :: "frame option"
  is_image :: bool
  ascii_width :: int
  ascii_height :: int
  show_ui :: bool
  show_performance :: bool
  quality_mode :: string
  hq_video :: bool
  reduce_flicker :: bool
  lock_dimensions :: bool
  char_px_w :: int
  char_px_h :: int
  producer_frame :: "frame option"

text \<open>
  \<open>__init__\<close>.  The converter is built with its defaults (threading on, four workers),
  so its constructor does not raise.  The terminal manager, the performance monitor and
  the colour manager hold no state the properties below depend on and are left out.
\<close>

definition ASCIIVideoPlayer_init :: "ASCIIStyle \<Rightarrow> ConversionAlgorithm \<Rightarrow> bool \<Rightarrow> int \<Rightarrow> player" where
  "ASCIIVideoPlayer_init st alg resize_handling buffer_size_arg =
     \<lparr>converter = \<lparr>style = st, algorithm = alg, use_threading = True, max_workers = 4,
                     ascii_chars = style_value st\<rparr>,
      enable_resize_handling = resize_handling,
      buffer_size = buffer_size_arg,
      is_playing = False, is_paused = False, current_frame = 0, total_frames = 0,
      video_fps = 30.0, playback_speed = 1.0,
      frame_buffer = [], stop_event = False,
      cap = None, media_path = None, static_image = None, is_image = False,
      ascii_width = 80, ascii_height = 24, show_ui = True, show_performance = True,
      quality_mode = ''auto'', hq_video = False, reduce_flicker = True,
      lock_dimensions = False, char_px_w = 10, char_px_h = 20,
      producer_frame = None\<rparr>"

text \<open>\<open>_compute_1440p_ascii_size(frame_shape)\<close>, with \<open>frame_shape = (height, width)\<close>.\<close>

definition compute_1440p_ascii_size :: "environment \<Rightarrow> player \<Rightarrow> int \<times> int \<Rightarrow> py_error + int \<times> int" where
  "compute_1440p_ascii_size env p frame_shape =
     (case terminal_size env of (term_w, term_h) \<Rightarrow>
      case frame_shape of (frame_h, frame_w) \<Rightarrow>
        let frame_aspect = real_of_int frame_w / real_of_int (max 1 frame_h) in
        if char_px_w p = 0 \<or> char_px_h p = 0 then Inl ZeroDivisionError
        else
          (let target_cols = max 1 (py_int (2560 / real_of_int (char_px_w p)));
               target_rows = max 1 (py_int (1440 / real_of_int (char_px_h p)))
           in if frame_aspect = 0 then Inl ZeroDivisionError
              else
                (let h_from_w = py_int ((real_of_int target_cols / frame_aspect)
                                         * (real_of_int (char_px_h p) / real_of_int (char_px_w p)));
                     cols = (if h_from_w \<le> target_rows then target_cols
                             else py_int ((real_of_int target_rows * frame_aspect)
                                          * (real_of_int (char_px_w p) / real_of_int (char_px_h p))));
                     rows = (if h_from_w \<le> target_rows then h_from_w else target_rows)
                 in Inr (max 1 (min cols (term_w - 2)), max 1 (min rows (term_h - 2))))))"

definition image_extensions :: "string list" where
  "image_extensions = [''.jpg'', ''.jpeg'', ''.png'', ''.bmp'', ''.tiff'', ''.tif'', ''.webp'',
                       ''.gif'', ''.ico'', ''.ppm'', ''.pgm'', ''.pbm'']"

text \<open>
  \<open>_load_image\<close> and \<open>_load_video\<close>: the result and the player as the call leaves it.  An
  exception of the size computation is caught by the \<open>except\<close> clause, which returns
  \<open>False\<close> after the assignments made so far.
\<close>

definition load_image :: "environment \<Rightarrow> player \<Rightarrow> string \<Rightarrow> bool \<times> player" where
  "load_image env p image_path =
     (case imread env (path_str env image_path) of
        None \<Rightarrow> (False, p)
      | Some img \<Rightarrow>
          (let p1 = p\<lparr>static_image := Some img, total_frames := 1, video_fps := 1.0,
                       current_frame := 0\<rparr>;
               frame_height = int (fr_rows img);
               frame_width = int (fr_cols img)
           in case (if lock_dimensions p1
                    then compute_1440p_ascii_size env p1 (frame_height, frame_width)
                    else (case terminal_size env of (terminal_width, terminal_height) \<Rightarrow>
                            get_optimal_dimensions terminal_width terminal_height
                              (frame_height, frame_width) (quality_mode p1)))
              of Inl e \<Rightarrow> (False, p1)
               | Inr (w, h) \<Rightarrow> (True, p1\<lparr>ascii_width := w, ascii_height := h\<rparr>)))"

definition load_video :: "environment \<Rightarrow> player \<Rightarrow> string \<Rightarrow> bool \<times> player" where
  "load_video env p video_path =
     (let c = video_capture env (path_str env video_path);
          p1 = p\<lparr>cap := Some c\<rparr>
      in if \<not> cap_opened c then (False, p1)
         else
           (let p2 = p1\<lparr>static_image := None,
                         total_frames := py_int (cap_frame_count c),
                         video_fps := (if cap_fps c = 0 then 30.0 else cap_fps c)\<rparr>;
                frame_width = py_int (cap_frame_width c);
                frame_height = py_int (cap_frame_height c)
            in case (if lock_dimensions p2
                     then compute_1440p_ascii_size env p2 (frame_height, frame_width)
                     else (case terminal_size env of (terminal_width, terminal_height) \<Rightarrow>
                             get_optimal_dimensions terminal_width terminal_height
                               (frame_height, frame_width)
                               (if hq_video p2 then quality_mode p2 else ''standard'')))
               of Inl e \<Rightarrow> (False, p2)
                | Inr (w, h) \<Rightarrow> (True, p2\<lparr>ascii_width := w, ascii_height := h\<rparr>)))"

text \<open>\<open>load_media(media_path)\<close>.\<close>

definition load_media :: "environment \<Rightarrow> player \<Rightarrow> string \<Rightarrow> bool \<times> player" where
  "load_media env p path =
     (if \<not> path_exists env path then (False, p)
      else
        (let file_ext = suffix_lower env path;
             p1 = (case cap p of
                     None \<Rightarrow> p
                   | Some c \<Rightarrow> p\<lparr>cap := Some (c\<lparr>cap_opened := False\<rparr>)\<rparr>);
             p2 = p1\<lparr>media_path := Some (path_str env path),
                      is_image := (file_ext \<in> set image_extensions)\<rparr>
         in if is_image p2 then load_image env p2 path else load_video env p2 path))"

section \<open>core.py: the runtime controls\<close>

text \<open>\<open>stop()\<close>: the threads are signalled and joined, the buffer is drained.\<close>

definition stop :: "player \<Rightarrow> player" where
  "stop p = p\<lparr>is_playing := False, stop_event := True, frame_buffer := []\<rparr>"

definition toggle_pause :: "player \<Rightarrow> player" where
  "toggle_pause p = p\<lparr>is_paused := \<not> is_paused p\<rparr>"

definition change_speed :: "player \<Rightarrow> real \<Rightarrow> player" where
  "change_speed p delta = p\<lparr>playback_speed := max 0.1 (min 5.0 (playback_speed p + delta))\<rparr>"

definition restart :: "player \<Rightarrow> player" where
  "restart p =
     (case cap p of
        None \<Rightarrow> p
      | Some c \<Rightarrow> p\<lparr>cap := Some (c\<lparr>cap_pos := 0\<rparr>), current_frame := 0, frame_buffer := []\<rparr>)"

definition seek :: "player \<Rightarrow> int \<Rightarrow> player" where
  "seek p frame_number =
     (case cap p of
        None \<Rightarrow> p
      | Some c \<Rightarrow>
          if 0 \<le> frame_number \<and> frame_number < total_frames p
          then p\<lparr>cap := Some (c\<lparr>cap_pos := nat frame_number\<rparr>), current_frame := frame_number,
                  frame_buffer := []\<rparr>
          else p)"

text \<open>\<open>_process_key(key)\<close>.\<close>

definition process_key :: "player \<Rightarrow> char \<Rightarrow> player" where
  "process_key p key =
     (if key = CHR ''q'' then stop p
      else if key = CHR '' '' then toggle_pause p
      else if key = CHR ''+'' \<or> key = CHR ''='' then change_speed p 0.1
      else if key = CHR ''-'' then change_speed p (- 0.1)
      else if key = CHR ''r'' then restart p
      else if key = CHR ''f'' then p\<lparr>show_ui := \<not> show_ui p\<rparr>
      else if key = CHR ''p'' then p\<lparr>show_performance := \<not> show_performance p\<rparr>
      else p)"

text \<open>
  \<open>play(show_ui, show_performance, fullscreen)\<close> up to the start of the two threads:
  \<open>False\<close> when no media is loaded, else the flags are set and the stop event cleared.
  What follows in \<open>play\<close> is the threads and the input loop, the actions below, and at
  the end \<open>stop()\<close>.
\<close>

definition play_start :: "player \<Rightarrow> bool \<Rightarrow> bool \<Rightarrow> bool \<Rightarrow> bool \<times> player" where
  "play_start p show_ui_arg show_performance_arg fullscreen =
     (if (if is_image p then static_image p = None
          else (case cap p of None \<Rightarrow> True | Some c \<Rightarrow> \<not> cap_opened c))
      then (False, p)
      else (True, p\<lparr>show_ui := show_ui_arg \<and> \<not> fullscreen,
                     show_performance := show_performance_arg,
                     is_playing := True, is_paused := False, stop_event := False\<rparr>))"

section \<open>core.py: the frame buffer and its two threads\<close>

text \<open>
  \<open>Queue.put(item, timeout=0.1)\<close> on a queue of the given \<open>maxsize\<close>: the queue is full
  when \<open>maxsize\<close> is positive and reached, and a put that finds it full until the timeout
  raises \<open>queue.Full\<close> (\<open>None\<close> here); a \<open>maxsize\<close> of zero or less means no bound.
\<close>

definition queue_put :: "int \<Rightarrow> 'a list \<Rightarrow> 'a \<Rightarrow> 'a list option" where
  "queue_put maxsize q item =
     (if 0 < maxsize \<and> maxsize \<le> int (length q) then None else Some (q @ [item]))"

text \<open>
  One iteration of the video loop of \<open>_buffer_frames\<close> up to \<open>cap.read()\<close>: the test of
  the loop, the test of the buffer size and the pause flag, and the read.
\<close>

definition buffer_read :: "player \<Rightarrow> player" where
  "buffer_read p =
     (if is_image p \<or> producer_frame p \<noteq> None \<or> stop_event p then p
      else case cap p of
        None \<Rightarrow> p
      | Some c \<Rightarrow>
          if \<not> cap_opened c then p
          else if int (length (frame_buffer p)) < buffer_size p \<and> \<not> is_paused p then
            (case cap_read c of (ret, c') \<Rightarrow> p\<lparr>cap := Some c', producer_frame := ret\<rparr>)
          else p)"

text \<open>
  The rest of the iteration: the put of \<open>(current_frame, frame)\<close>; \<open>queue.Full\<close> is caught
  and the frame is dropped.
\<close>

definition buffer_put :: "player \<Rightarrow> player" where
  "buffer_put p =
     (case producer_frame p of
        None \<Rightarrow> p
      | Some fr \<Rightarrow>
          (case queue_put (buffer_size p) (frame_buffer p) (current_frame p, fr) of
             None \<Rightarrow> p\<lparr>producer_frame := None\<rparr>
           | Some q \<Rightarrow> p\<lparr>frame_buffer := q, current_frame := current_frame p + 1,
                          producer_frame := None\<rparr>))"

text \<open>The image branch of \<open>_buffer_frames\<close>: the image is put once, into an empty buffer.\<close>

definition buffer_image :: "player \<Rightarrow> player" where
  "buffer_image p =
     (if is_image p then
        (case static_image p of
           None \<Rightarrow> p
         | Some img \<Rightarrow>
             if length (frame_buffer p) = 0 then
               (case queue_put (buffer_size p) (frame_buffer p) (0, img) of
                  None \<Rightarrow> p
                | Some q \<Rightarrow> p\<lparr>frame_buffer := q\<rparr>)
             else p)
      else p)"

text \<open>
  The \<open>frame_buffer.get(timeout=0.1)\<close> of \<open>_display_frames\<close>: the oldest entry leaves the
  buffer; on an empty buffer \<open>queue.Empty\<close> is caught.
\<close>

definition display_get :: "player \<Rightarrow> player" where
  "display_get p =
     (if stop_event p \<or> is_paused p then p
      else case frame_buffer p of [] \<Rightarrow> p | x # q \<Rightarrow> p\<lparr>frame_buffer := q\<rparr>)"

text \<open>
  The atomic actions of a session, in the order a schedule interleaves them: the two
  halves of a buffering iteration, the image put, the get of the display thread, a key
  of the input loop, a seek, a load, the start of a playback and a stop.
\<close>

datatype event =
  BufferRead | BufferPut | BufferImage | DisplayGet | Key char | Seek int | Load string
  | Play bool bool bool | Stop

fun step :: "environment \<Rightarrow> player \<Rightarrow> event \<Rightarrow> player" where
  "step env p BufferRead = buffer_read p"
| "step env p BufferPut = buffer_put p"
| "step env p BufferImage = buffer_image p"
| "step env p DisplayGet = display_get p"
| "step env p (Key k) = process_key p k"
| "step env p (Seek n) = seek p n"
| "step env p (Load path) = snd (load_media env p path)"
| "step env p (Play ui perf fullscreen) = snd (play_start p ui perf fullscreen)"
| "step env p Stop = stop p"



section \<open>Sample values\<close>

text \<open>
  A frame of constant samples and an OpenCV whose pixel pipelines return zero samples
  (and whose enhancement strategies return their input), for concrete evaluations.
\<close>

definition flat_cv2 :: cv2 where
  "flat_cv2 = \<lparr>resize_px = (\<lambda>src w h i j c. 0), edsr_px = (\<lambda>src w h i j c. 0),
     edge_preserving_px = (\<lambda>src w h i j c. 0), gray_px = (\<lambda>src i j c. 0),
     edge_enhanced_brightness = Inr, super_resolution_brightness = Inr,
     adaptive_4k_brightness = Inr, neural_upscale_brightness = Inr\<rparr>"

definition flat_frame :: "nat \<Rightarrow> nat \<Rightarrow> real \<Rightarrow> frame" where
  "flat_frame rows cols v = \<lparr>fr_rows = rows, fr_cols = cols, fr_color = True, fr_px = (\<lambda>i j c. v)\<rparr>"

text \<open>
  A world with one file, the image \<open>a.png\<close> of 2 by 2 pixels, and a terminal of 80
  columns by 24 lines.
\<close>

definition sample_env :: environment where
  "sample_env =
     \<lparr>path_exists = (\<lambda>p. p = ''a.png''), path_str = (\<lambda>p. p),
      suffix_lower = (\<lambda>p. if p = ''a.png'' then ''.png'' else ''''),
      imread = (\<lambda>p. if p = ''a.png'' then Some (flat_frame 2 2 0) else None),
      video_capture = (\<lambda>p. \<lparr>cap_opened = False, cap_frames = [], cap_pos = 0, cap_frame_count = 0,
                               cap_fps = 0, cap_frame_width = 0, cap_frame_height = 0\<rparr>),
      terminal_size = (80, 24)\<rparr>"

section \<open>Properties of the rounding\<close>

lemma rne_bounds: "\<lfloor>y\<rfloor> \<le> rne y \<and> rne y \<le> \<lfloor>y\<rfloor> + 1"
  unfolding rne_def by (simp add: Let_def)

lemma rne_of_int: "rne (of_int k) = k"
  unfolding rne_def by (simp add: Let_def)

lemma rne_mono: "y \<le> z \<Longrightarrow> rne y \<le> rne z"
proof -
  assume yz: "y \<le> z"
  have fm: "\<lfloor>y\<rfloor> \<le> \<lfloor>z\<rfloor>" using yz by (rule floor_mono)
  show ?thesis
  proof (cases "\<lfloor>y\<rfloor> = \<lfloor>z\<rfloor>")
    case True
    then show ?thesis using yz unfolding rne_def by (auto simp: Let_def)
  next
    case False
    then have "\<lfloor>y\<rfloor> + 1 \<le> \<lfloor>z\<rfloor>" using fm by simp
    then show ?thesis using rne_bounds[of y] rne_bounds[of z] by linarith
  qed
qed

lemma rne_le: "y \<le> of_int n \<Longrightarrow> rne y \<le> n"
  using rne_mono[of y "of_int n"] by (simp add: rne_of_int)

lemma rne_ge: "of_int n \<le> y \<Longrightarrow> n \<le> rne y"
  using rne_mono[of "of_int n" y] by (simp add: rne_of_int)

lemma two_powr: "2 powr real_of_int n = (2::real) powi n"
  by (simp add: powr_real_of_int')

lemma float_exponent_log: "float_exponent x = \<lfloor>log 2 \<bar>x\<bar>\<rfloor>"
proof (induction x rule: float_exponent.induct)
  case (1 x)
  show ?case
  proof (cases "x = 0")
    case True
    then show ?thesis by (subst float_exponent.simps) (simp add: log_def)
  next
    case nz: False
    show ?thesis
    proof (cases "2 \<le> \<bar>x\<bar>")
      case True
      have "log 2 \<bar>x / 2\<bar> = log 2 \<bar>x\<bar> - 1"
        using nz by (simp add: log_divide)
      then have "\<lfloor>log 2 \<bar>x / 2\<bar>\<rfloor> = \<lfloor>log 2 \<bar>x\<bar>\<rfloor> - 1" by simp
      then show ?thesis
        using 1(1)[OF nz True] nz True by (subst float_exponent.simps) simp
    next
      case nb: False
      show ?thesis
      proof (cases "\<bar>x\<bar> < 1")
        case True
        have "log 2 \<bar>x * 2\<bar> = log 2 \<bar>x\<bar> + 1"
          using nz by (simp add: log_mult abs_mult)
        then have "\<lfloor>log 2 \<bar>x * 2\<bar>\<rfloor> = \<lfloor>log 2 \<bar>x\<bar>\<rfloor> + 1" by simp
        then show ?thesis
          using 1(2)[OF nz nb True] nz nb True by (subst float_exponent.simps) simp
      next
        case False
        then have "0 \<le> log 2 \<bar>x\<bar>" "log 2 \<bar>x\<bar> < 1"
          using nb nz by (simp_all add: log_less_iff)
        then have "\<lfloor>log 2 \<bar>x\<bar>\<rfloor> = 0" by (simp add: floor_eq_iff)
        then show ?thesis
          using nz nb False by (subst float_exponent.simps) simp
      qed
    qed
  qed
qed

lemma float_exponent_bounds:
  assumes "x \<noteq> 0"
  shows "2 powi (float_exponent x) \<le> \<bar>x\<bar>" and "\<bar>x\<bar> < 2 powi (float_exponent x + 1)"
proof -
  have pos: "0 < \<bar>x\<bar>" using assms by simp
  have "real_of_int (float_exponent x) \<le> log 2 \<bar>x\<bar>"
    unfolding float_exponent_log by simp
  then have "2 powr real_of_int (float_exponent x) \<le> \<bar>x\<bar>"
    using le_log_iff[of 2 "\<bar>x\<bar>"] pos by simp
  then show "2 powi (float_exponent x) \<le> \<bar>x\<bar>"
    unfolding two_powr .
  have "log 2 \<bar>x\<bar> < real_of_int (float_exponent x + 1)"
    unfolding float_exponent_log by linarith
  then have "\<bar>x\<bar> < 2 powr real_of_int (float_exponent x + 1)"
    using log_less_iff[of 2 "\<bar>x\<bar>" "real_of_int (float_exponent x + 1)"] pos by simp
  then show "\<bar>x\<bar> < 2 powi (float_exponent x + 1)"
    unfolding two_powr .
qed

lemma float_exponent_eq:
  assumes "2 powi e \<le> \<bar>x\<bar>" and "\<bar>x\<bar> < 2 powi (e + 1)"
  shows "float_exponent x = e"
proof -
  have "0 < (2::real) powi e" by simp
  then have pos: "0 < \<bar>x\<bar>"
    using assms(1) by linarith
  have a: "2 powr real_of_int e \<le> \<bar>x\<bar>" using assms(1) unfolding two_powr .
  have b: "\<bar>x\<bar> < 2 powr real_of_int (e + 1)" using assms(2) unfolding two_powr .
  have "real_of_int e \<le> log 2 \<bar>x\<bar>" using a le_log_iff[of 2 "\<bar>x\<bar>"] pos by simp
  moreover have "log 2 \<bar>x\<bar> < real_of_int (e + 1)"
    using b log_less_iff[of 2 "\<bar>x\<bar>" "real_of_int (e + 1)"] pos by simp
  ultimately show ?thesis unfolding float_exponent_log by (simp add: floor_eq_iff)
qed

lemma fl_eval:
  assumes "2 powi e \<le> \<bar>x\<bar>" and "\<bar>x\<bar> < 2 powi (e + 1)"
    and "u = 2 powi (e - int p + 1)" and "r = rne (x / u)"
  shows "fl p x = of_int r * u"
proof -
  have "0 < (2::real) powi e" by simp
  then have "0 < \<bar>x\<bar>" using assms(1) by linarith
  then have "x \<noteq> 0" by simp
  then show ?thesis
    unfolding fl_def float_exponent_eq[OF assms(1,2)] assms(3,4) by (simp add: Let_def)
qed

lemma fl_zero: "fl p 0 = 0"
  unfolding fl_def by simp

lemma fl_form:
  assumes "x \<noteq> 0"
  shows "fl p x = of_int (rne (x / 2 powi (float_exponent x - int p + 1))) * 2 powi (float_exponent x - int p + 1)"
  using assms unfolding fl_def by (simp add: Let_def)

lemma powi_split: "(2::real) powi (int n + b) = 2 ^ n * 2 powi b"
  by (simp add: power_int_add)

lemma ulp_scale:
  assumes "0 < p"
  shows "2 powi e = 2 ^ (p - 1) * (2::real) powi (e - int p + 1)"
    and "2 powi (e + 1) = 2 ^ p * (2::real) powi (e - int p + 1)"
proof -
  have a: "int (p - 1) + (e - int p + 1) = e" using assms by simp
  show "2 powi e = 2 ^ (p - 1) * (2::real) powi (e - int p + 1)"
    using powi_split[of "p - 1" "e - int p + 1"] unfolding a .
  have b: "int p + (e - int p + 1) = e + 1" by simp
  show "2 powi (e + 1) = 2 ^ p * (2::real) powi (e - int p + 1)"
    using powi_split[of p "e - int p + 1"] unfolding b .
qed

text \<open>The scaled value lies between \<open>2^(p-1)\<close> and \<open>2^p\<close> in absolute value.\<close>

lemma scaled_bounds:
  assumes "0 < x" and "0 < p"
  defines "u \<equiv> 2 powi (float_exponent x - int p + 1)"
  shows "2 ^ (p - 1) \<le> x / u" and "x / u < 2 ^ p"
proof -
  have x0: "x \<noteq> 0" using assms(1) by simp
  have u: "0 < u" unfolding u_def by simp
  have lo: "2 powi (float_exponent x) \<le> x" and hi: "x < 2 powi (float_exponent x + 1)"
    using float_exponent_bounds[OF x0] assms(1) by simp_all
  have e1: "2 powi (float_exponent x) = 2 ^ (p - 1) * u"
    unfolding u_def by (rule ulp_scale(1)[OF assms(2)])
  have e2: "2 powi (float_exponent x + 1) = 2 ^ p * u"
    unfolding u_def by (rule ulp_scale(2)[OF assms(2)])
  show "2 ^ (p - 1) \<le> x / u" using lo u unfolding e1 by (simp add: field_simps)
  show "x / u < 2 ^ p" using hi u unfolding e2 by (simp add: field_simps)
qed

lemma fl_between:
  assumes "0 < x" and "0 < p"
  shows "2 powi (float_exponent x) \<le> fl p x" and "fl p x \<le> 2 powi (float_exponent x + 1)"
proof -
  define u :: real where "u = 2 powi (float_exponent x - int p + 1)"
  have x0: "x \<noteq> 0" using assms(1) by simp
  have u: "0 < u" unfolding u_def by simp
  have f: "fl p x = of_int (rne (x / u)) * u" unfolding u_def by (rule fl_form[OF x0])
  have b: "2 ^ (p - 1) \<le> x / u" "x / u < 2 ^ p"
    using scaled_bounds[OF assms] unfolding u_def by simp_all
  have "real_of_int (2 ^ (p - 1)) \<le> x / u" using b(1) by simp
  then have r1: "2 ^ (p - 1) \<le> rne (x / u)" by (rule rne_ge)
  have "x / u \<le> real_of_int (2 ^ p)" using b(2) by simp
  then have r2: "rne (x / u) \<le> 2 ^ p" by (rule rne_le)
  have e1: "2 powi (float_exponent x) = 2 ^ (p - 1) * u"
    unfolding u_def by (rule ulp_scale(1)[OF assms(2)])
  have e2: "2 powi (float_exponent x + 1) = 2 ^ p * u"
    unfolding u_def by (rule ulp_scale(2)[OF assms(2)])
  have "real_of_int (2 ^ (p - 1)) \<le> real_of_int (rne (x / u))" using r1 by (simp only: of_int_le_iff)
  then have "2 ^ (p - 1) * u \<le> of_int (rne (x / u)) * u"
    using u by (simp add: mult_right_mono)
  then show "2 powi (float_exponent x) \<le> fl p x" unfolding f e1 .
  have "real_of_int (rne (x / u)) \<le> real_of_int (2 ^ p)" using r2 by (simp only: of_int_le_iff)
  then have "of_int (rne (x / u)) * u \<le> 2 ^ p * u"
    using u by (simp add: mult_right_mono)
  then show "fl p x \<le> 2 powi (float_exponent x + 1)" unfolding f e2 .
qed

lemma fl_pos: "0 < x \<Longrightarrow> 0 < p \<Longrightarrow> 0 < fl p x"
proof -
  assume a: "0 < x" "0 < p"
  have "0 < (2::real) powi (float_exponent x)" by simp
  then show ?thesis using fl_between(1)[OF a] by linarith
qed

lemma float_exponent_mono:
  assumes "0 < x" "x \<le> y"
  shows "float_exponent x \<le> float_exponent y"
proof -
  have "log 2 \<bar>x\<bar> \<le> log 2 \<bar>y\<bar>" using assms by simp
  then show ?thesis unfolding float_exponent_log by (rule floor_mono)
qed

lemma fl_mono:
  assumes "0 \<le> x" "x \<le> y" "0 < p"
  shows "fl p x \<le> fl p y"
proof (cases "x = 0")
  case True
  show ?thesis
  proof (cases "y = 0")
    case True
    then show ?thesis using \<open>x = 0\<close> by simp
  next
    case False
    then have "0 < y" using assms(1,2) by simp
    then show ?thesis using fl_pos[OF _ assms(3)] \<open>x = 0\<close> by (simp add: fl_zero less_imp_le)
  qed
next
  case False
  then have x: "0 < x" using assms(1) by simp
  then have y: "0 < y" using assms(2) by simp
  have le: "float_exponent x \<le> float_exponent y" by (rule float_exponent_mono[OF x assms(2)])
  show ?thesis
  proof (cases "float_exponent x = float_exponent y")
    case True
    define u :: real where "u = 2 powi (float_exponent x - int p + 1)"
    have u: "0 < u" unfolding u_def by simp
    have fx: "fl p x = of_int (rne (x / u)) * u" unfolding u_def using fl_form x by simp
    have fy: "fl p y = of_int (rne (y / u)) * u" unfolding u_def True using fl_form y by simp
    have "x / u \<le> y / u" using assms(2) u by (simp add: divide_right_mono)
    then have "rne (x / u) \<le> rne (y / u)" by (rule rne_mono)
    then have "real_of_int (rne (x / u)) \<le> real_of_int (rne (y / u))" by (simp only: of_int_le_iff)
    then show ?thesis unfolding fx fy using u by (simp add: mult_right_mono)
  next
    case False
    then have "float_exponent x + 1 \<le> float_exponent y" using le by simp
    then have "(2::real) powi (float_exponent x + 1) \<le> 2 powi (float_exponent y)"
      by (intro power_int_increasing) simp_all
    then show ?thesis
      using fl_between(2)[OF x assms(3)] fl_between(1)[OF y assms(3)] by linarith
  qed
qed

lemma fl_exact:
  assumes "\<bar>k\<bar> < 2 ^ p"
  shows "fl p (real_of_int k * 2 powi j) = real_of_int k * 2 powi j"
proof (cases "k = 0")
  case True
  then show ?thesis by (simp add: fl_zero)
next
  case False
  define x where "x = real_of_int k * 2 powi j"
  have x0: "x \<noteq> 0" unfolding x_def using False by simp
  define e where "e = float_exponent x"
  have ax: "\<bar>x\<bar> = real_of_int \<bar>k\<bar> * 2 powi j" unfolding x_def by (simp add: abs_mult)
  have "real_of_int \<bar>k\<bar> < real_of_int (2 ^ p)" using assms by (simp only: of_int_less_iff)
  then have "\<bar>x\<bar> < 2 ^ p * 2 powi j" unfolding ax by simp
  also have "\<dots> = 2 powi (int p + j)" by (simp only: powi_split)
  finally have "\<bar>x\<bar> < 2 powi (int p + j)" .
  then have lt: "2 powi e < (2::real) powi (int p + j)"
    using float_exponent_bounds(1)[OF x0] unfolding e_def by linarith
  have elt: "e < int p + j"
  proof (rule ccontr)
    assume "\<not> e < int p + j"
    then have "int p + j \<le> e" by simp
    then have "(2::real) powi (int p + j) \<le> 2 powi e"
      by (intro power_int_increasing) simp_all
    then show False using lt by linarith
  qed
  define m where "m = nat (j - e + int p - 1)"
  have m: "int m = j - e + int p - 1" unfolding m_def using elt by simp
  define u :: real where "u = 2 powi (e - int p + 1)"
  have u0: "u \<noteq> 0" unfolding u_def by simp
  have "2 powi j = (2::real) powi (int m + (e - int p + 1))" unfolding m by simp
  also have "\<dots> = 2 ^ m * u" unfolding u_def by (simp only: powi_split)
  finally have pj: "2 powi j = 2 ^ m * u" .
  have "x / u = real_of_int k * 2 ^ m" unfolding x_def pj using u0 by simp
  also have "\<dots> = real_of_int (k * 2 ^ m)" by simp
  finally have xu: "x / u = real_of_int (k * 2 ^ m)" .
  have "fl p x = of_int (rne (x / u)) * u"
    unfolding u_def e_def by (rule fl_form[OF x0])
  also have "\<dots> = real_of_int (k * 2 ^ m) * u" unfolding xu rne_of_int ..
  also have "\<dots> = x" unfolding x_def pj by simp
  finally show ?thesis unfolding x_def .
qed

lemma fl_of_int: "\<bar>k\<bar> < 2 ^ p \<Longrightarrow> fl p (real_of_int k) = real_of_int k"
  using fl_exact[of k p 0] by simp





lemma precision_pos: "0 < precision dt"
  by (cases dt) simp_all

lemma precision_ge: "(2::int) ^ 24 \<le> 2 ^ precision dt"
  by (cases dt) simp_all

section \<open>Properties of the dimension planner\<close>

lemma py_int_mono: "x \<le> y \<Longrightarrow> py_int x \<le> py_int y"
  unfolding py_int_def
  by (smt (verit) ceiling_mono floor_mono floor_le_ceiling ceiling_le_zero zero_le_floor)

lemma py_int_nonpos: "x \<le> 0 \<Longrightarrow> py_int x \<le> 0"
  unfolding py_int_def by (simp add: ceiling_le_zero)

lemma quality_multiplier_pos: "0 < quality_multiplier q fw fh"
  unfolding quality_multiplier_def by (simp add: Let_def)

lemma quality_multiplier_standard: "quality_multiplier ''standard'' fw fh = 1"
  unfolding quality_multiplier_def by simp

lemma quality_multiplier_auto:
  "3 / 2 \<le> quality_multiplier ''auto'' fw fh \<and> quality_multiplier ''auto'' fw fh \<le> 3"
  unfolding quality_multiplier_def by (simp add: Let_def)

lemma quality_multiplier_4k: "quality_multiplier ''4k'' fw fh = 3"
  unfolding quality_multiplier_def by simp

lemma quality_multiplier_6k: "quality_multiplier ''6k'' fw fh = 7 / 2"
  unfolding quality_multiplier_def by simp

lemma quality_multiplier_8k: "quality_multiplier ''8k'' fw fh = 4"
  unfolding quality_multiplier_def by simp

lemma quality_multiplier_tiers:
  assumes "i \<le> j" "j < length quality_tiers"
  shows "quality_multiplier (quality_tiers ! i) fw fh \<le> quality_multiplier (quality_tiers ! j) fw fh"
proof -
  define f where "f k = quality_multiplier (quality_tiers ! k) fw fh" for k
  have v: "f 0 = 1" "3 / 2 \<le> f 1" "f 1 \<le> 3" "f 2 = 3" "f 3 = 7 / 2" "f 4 = 4"
    unfolding f_def quality_tiers_def
    using quality_multiplier_auto[of fw fh]
    by (simp_all add: quality_multiplier_standard quality_multiplier_4k
        quality_multiplier_6k quality_multiplier_8k)
  have j: "j \<in> {0, 1, 2, 3, 4}"
    using assms(2) unfolding quality_tiers_def by auto
  have i: "i \<in> {0, 1, 2, 3, 4}"
    using assms unfolding quality_tiers_def by auto
  have "f i \<le> f j"
    using i j assms(1) v by auto
  then show ?thesis
    unfolding f_def .
qed

lemma base_dimensions_total:
  "terminal_height \<noteq> 0 \<Longrightarrow> frame_aspect \<noteq> 0 \<Longrightarrow>
   \<exists>bw bh. base_dimensions terminal_width terminal_height frame_aspect char_aspect = Inr (bw, bh)"
  unfolding base_dimensions_def by (simp add: Let_def)

text \<open>One output coordinate as a function of the multiplier.\<close>

lemma scaled_dimension_mono:
  fixes b :: int and m m' :: real
  assumes "0 < m" "m \<le> m'"
  shows "max 1 (min (py_int (real_of_int b * m)) c) \<le> max 1 (min (py_int (real_of_int b * m')) c)"
proof (cases "0 \<le> b")
  case True
  then have "real_of_int b * m \<le> real_of_int b * m'"
    using assms by (simp add: mult_left_mono)
  then have "py_int (real_of_int b * m) \<le> py_int (real_of_int b * m')"
    by (rule py_int_mono)
  then show ?thesis by auto
next
  case False
  then have "real_of_int b * m \<le> 0"
    using assms by (simp add: mult_le_0_iff)
  then have "py_int (real_of_int b * m) \<le> 0"
    by (rule py_int_nonpos)
  then show ?thesis by auto
qed

text \<open>
  C2.  The scenario of a 1920 by 1080 source on a 120 by 40 terminal in quality mode
  standard: the planner returns 135 columns by 38 rows.  The branch test compares the
  terminal's aspect 3 with \<open>frame_aspect * char_aspect\<close> (about 0.89), takes the
  "height is limiting" branch and computes the width as \<open>38 * frame_aspect / char_aspect\<close>,
  which exceeds the usable terminal width of 118.
\<close>

theorem planner_scenario_1080p_standard:
  "get_optimal_dimensions 120 40 (1080, 1920) ''standard'' = Inr (135, 38)"
  unfolding get_optimal_dimensions_def base_dimensions_def quality_multiplier_def bind_err_def py_int_def
  by (simp add: Let_def)

lemma get_optimal_dimensions_result:
  assumes "get_optimal_dimensions terminal_width terminal_height (frame_height, frame_width) q = Inr (w, h)"
  shows "\<exists>bw bh. \<forall>q'. get_optimal_dimensions terminal_width terminal_height (frame_height, frame_width) q'
      = Inr (max 1 (min (py_int (real_of_int bw * quality_multiplier q' frame_width frame_height)) (min (terminal_width * 4) 1000)),
             max 1 (min (py_int (real_of_int bh * quality_multiplier q' frame_width frame_height)) (min (terminal_height * 4) 800)))"
proof -
  have fh: "frame_height \<noteq> 0"
    using assms unfolding get_optimal_dimensions_def by (auto split: if_splits)
  define fa where "fa = real_of_int frame_width / real_of_int frame_height"
  obtain bw bh where base: "base_dimensions terminal_width terminal_height fa 0.5 = Inr (bw, bh)"
    using assms fh unfolding get_optimal_dimensions_def fa_def bind_err_def
    by (cases "base_dimensions terminal_width terminal_height
          (real_of_int frame_width / real_of_int frame_height) 0.5") (auto simp: Let_def)
  have "get_optimal_dimensions terminal_width terminal_height (frame_height, frame_width) q'
      = Inr (max 1 (min (py_int (real_of_int bw * quality_multiplier q' frame_width frame_height)) (min (terminal_width * 4) 1000)),
             max 1 (min (py_int (real_of_int bh * quality_multiplier q' frame_width frame_height)) (min (terminal_height * 4) 800)))"
    for q'
    using fh base unfolding get_optimal_dimensions_def fa_def bind_err_def
    by (simp add: Let_def)
  then show ?thesis by blast
qed

lemma get_optimal_dimensions_returns:
  assumes "frame_height \<noteq> 0" "frame_width \<noteq> 0" "terminal_height \<noteq> 0"
  shows "\<exists>w h. get_optimal_dimensions terminal_width terminal_height (frame_height, frame_width) q = Inr (w, h)"
proof -
  have fa: "real_of_int frame_width / real_of_int frame_height \<noteq> 0"
    using assms(1,2) by simp
  obtain bw bh where "base_dimensions terminal_width terminal_height
      (real_of_int frame_width / real_of_int frame_height) 0.5 = Inr (bw, bh)"
    using base_dimensions_total[OF assms(3) fa] by blast
  then show ?thesis
    using assms(1) unfolding get_optimal_dimensions_def bind_err_def by (simp add: Let_def)
qed

text \<open>
  C7.  For all frame sizes and terminal geometries and every quality tier, whenever the
  planner returns a geometry both coordinates are at least 1, and of two tiers in the
  order standard, auto, 4k, 6k, 8k the later one returns too and never yields a smaller
  width or height on the same inputs.  The planner returns whenever the frame has a
  non-zero height and width and the terminal a non-zero number of rows; a zero among
  them makes a division raise ZeroDivisionError, in every tier alike.
\<close>

theorem planner_bounds_and_tier_monotone:
  assumes "i \<le> j" and "j < length quality_tiers"
  shows "(frame_height \<noteq> 0 \<and> frame_width \<noteq> 0 \<and> terminal_height \<noteq> 0 \<longrightarrow>
            (\<exists>w h. get_optimal_dimensions terminal_width terminal_height (frame_height, frame_width)
                      (quality_tiers ! i) = Inr (w, h)))
       \<and> (\<forall>w h. get_optimal_dimensions terminal_width terminal_height (frame_height, frame_width)
                    (quality_tiers ! i) = Inr (w, h) \<longrightarrow>
            (\<exists>w' h'. get_optimal_dimensions terminal_width terminal_height (frame_height, frame_width)
                        (quality_tiers ! j) = Inr (w', h')
                    \<and> 1 \<le> w \<and> 1 \<le> h \<and> 1 \<le> w' \<and> 1 \<le> h' \<and> w \<le> w' \<and> h \<le> h'))"
proof (intro conjI allI impI)
  assume "frame_height \<noteq> 0 \<and> frame_width \<noteq> 0 \<and> terminal_height \<noteq> 0"
  then show "\<exists>w h. get_optimal_dimensions terminal_width terminal_height (frame_height, frame_width)
                      (quality_tiers ! i) = Inr (w, h)"
    using get_optimal_dimensions_returns by blast
next
  fix w h
  assume r: "get_optimal_dimensions terminal_width terminal_height (frame_height, frame_width)
               (quality_tiers ! i) = Inr (w, h)"
  define m where "m = quality_multiplier (quality_tiers ! i) frame_width frame_height"
  define m' where "m' = quality_multiplier (quality_tiers ! j) frame_width frame_height"
  have m: "0 < m" "m \<le> m'"
    unfolding m_def m'_def
    using quality_multiplier_pos quality_multiplier_tiers[OF assms] by auto
  obtain bw bh where e: "\<And>q'. get_optimal_dimensions terminal_width terminal_height (frame_height, frame_width) q'
      = Inr (max 1 (min (py_int (real_of_int bw * quality_multiplier q' frame_width frame_height)) (min (terminal_width * 4) 1000)),
             max 1 (min (py_int (real_of_int bh * quality_multiplier q' frame_width frame_height)) (min (terminal_height * 4) 800)))"
    using get_optimal_dimensions_result[OF r] by blast
  have w: "w = max 1 (min (py_int (real_of_int bw * m)) (min (terminal_width * 4) 1000))"
    and h: "h = max 1 (min (py_int (real_of_int bh * m)) (min (terminal_height * 4) 800))"
    using r unfolding e m_def by simp_all
  show "\<exists>w' h'. get_optimal_dimensions terminal_width terminal_height (frame_height, frame_width)
                        (quality_tiers ! j) = Inr (w', h')
                    \<and> 1 \<le> w \<and> 1 \<le> h \<and> 1 \<le> w' \<and> 1 \<le> h' \<and> w \<le> w' \<and> h \<le> h'"
    unfolding e w h
    using scaled_dimension_mono[OF m, of bw] scaled_dimension_mono[OF m, of bh]
    unfolding m_def m'_def
    by simp
qed

theorem planner_bounds_and_tier_monotone_witness:
  "get_optimal_dimensions 120 40 (1080, 1920) (quality_tiers ! 0) = Inr (135, 38)
   \<and> get_optimal_dimensions 120 40 (1080, 1920) (quality_tiers ! 1) = Inr (337, 95)"
proof -
  have ij: "(0::nat) \<le> 1" "1 < length quality_tiers" by (simp_all add: quality_tiers_def)
  have r0: "get_optimal_dimensions 120 40 (1080, 1920) (quality_tiers ! 0) = Inr (135, 38)"
    unfolding get_optimal_dimensions_def base_dimensions_def quality_multiplier_def bind_err_def
      py_int_def quality_tiers_def
    by (simp add: Let_def)
  from planner_bounds_and_tier_monotone[OF ij, of 1080 1920 40 120] r0
  obtain w' h' where "get_optimal_dimensions 120 40 (1080, 1920) (quality_tiers ! 1) = Inr (w', h')"
    by blast
  then have "get_optimal_dimensions 120 40 (1080, 1920) (quality_tiers ! 1) = Inr (337, 95)"
    unfolding get_optimal_dimensions_def base_dimensions_def quality_multiplier_def bind_err_def
      py_int_def quality_tiers_def
    by (simp add: Let_def)
  then show ?thesis using r0 by simp
qed

section \<open>Properties of the character mapper\<close>

lemma sequence_err_map_Inr:
  "(\<And>x. x \<in> set xs \<Longrightarrow> f x = Inr (g x)) \<Longrightarrow> sequence_err (map f xs) = Inr (map g xs)"
  by (induction xs) simp_all

lemma getitem_in_range: "0 \<le> i \<Longrightarrow> i < int (length xs) \<Longrightarrow> getitem xs i = Inr (xs ! nat i)"
  unfolding getitem_def by simp

text \<open>
  The index of a brightness in [0,1]: the truncated float product needs no clipping,
  and it is the floor of the exact product or, when the float product is rounded up to
  an integer, its ceiling.
\<close>

lemma float_index:
  fixes v :: real and m :: int and dt :: float_dtype
  assumes "0 \<le> v" "v \<le> 1" "0 \<le> m" "m < 2 ^ 24"
  defines "y \<equiv> fl (precision dt) (v * real_of_int m)"
  shows "np_clip (astype_int32 (fl (precision dt) (v * fl (precision dt) (real_of_int m)))) 0 m = \<lfloor>y\<rfloor>"
    and "0 \<le> \<lfloor>y\<rfloor>" and "\<lfloor>y\<rfloor> \<le> m"
    and "\<lfloor>v * real_of_int m\<rfloor> \<le> \<lfloor>y\<rfloor>" and "\<lfloor>y\<rfloor> \<le> \<lceil>v * real_of_int m\<rceil>"
proof -
  define p where "p = precision dt"
  have p: "0 < p" unfolding p_def by (rule precision_pos)
  have big: "(2::int) ^ 24 \<le> 2 ^ p" unfolding p_def by (rule precision_ge)
  have exact: "fl p (real_of_int k) = real_of_int k" if "0 \<le> k" "k \<le> m" for k
  proof -
    have "\<bar>k\<bar> < 2 ^ p" using that assms(4) big by simp
    then show ?thesis by (rule fl_of_int)
  qed
  define x where "x = v * real_of_int m"
  have y: "y = fl p x" unfolding y_def x_def p_def[symmetric] by simp
  have y': "fl (precision dt) (v * fl (precision dt) (real_of_int m)) = y"
    unfolding y_def p_def[symmetric] using exact[of m] assms(3) by simp
  have nn: "0 \<le> real_of_int m" using assms(3) by simp
  have lo: "0 \<le> x" unfolding x_def using assms(1) nn by (rule mult_nonneg_nonneg)
  have hi: "x \<le> real_of_int m" unfolding x_def by (rule mult_left_le_one_le[OF nn assms(1,2)])
  have fx0: "0 \<le> \<lfloor>x\<rfloor>" using lo by simp
  have fxm: "\<lfloor>x\<rfloor> \<le> m" using floor_mono[OF hi] by simp
  have cx0: "0 \<le> \<lceil>x\<rceil>" using lo by (simp add: zero_le_ceiling)
  have cxm: "\<lceil>x\<rceil> \<le> m" using ceiling_mono[OF hi] by simp
  have "fl p (real_of_int \<lfloor>x\<rfloor>) \<le> fl p x"
    by (rule fl_mono[OF _ _ p]) (use fx0 in simp_all)
  then have a: "real_of_int \<lfloor>x\<rfloor> \<le> y" unfolding y exact[OF fx0 fxm] .
  have "fl p x \<le> fl p (real_of_int \<lceil>x\<rceil>)"
    by (rule fl_mono[OF lo _ p]) simp
  then have b: "y \<le> real_of_int \<lceil>x\<rceil>" unfolding y exact[OF cx0 cxm] .
  have "0 \<le> real_of_int \<lfloor>x\<rfloor>" using fx0 by simp
  then have y0: "0 \<le> y" using a by linarith
  have "real_of_int \<lceil>x\<rceil> \<le> real_of_int m" using cxm by simp
  then have ym: "y \<le> real_of_int m" using b by linarith
  show f0: "0 \<le> \<lfloor>y\<rfloor>" using y0 by simp
  show fm: "\<lfloor>y\<rfloor> \<le> m" using floor_mono[OF ym] by simp
  show "\<lfloor>v * real_of_int m\<rfloor> \<le> \<lfloor>y\<rfloor>" using floor_mono[OF a] unfolding x_def by simp
  show "\<lfloor>y\<rfloor> \<le> \<lceil>v * real_of_int m\<rceil>" using floor_mono[OF b] unfolding x_def by simp
  have "m < 16777216" using assms(4) by simp
  then have "real_of_int m < 16777216" by simp
  then have "y < 2147483648" using ym by linarith
  then have "astype_int32 y = \<lfloor>y\<rfloor>" using y0 unfolding astype_int32_def py_int_def by simp
  then show "np_clip (astype_int32 (fl (precision dt) (v * fl (precision dt) (real_of_int m)))) 0 m = \<lfloor>y\<rfloor>"
    using f0 fm unfolding np_clip_def y' by simp
qed

lemma convert_row_index:
  assumes "1 \<le> length (ascii_chars conv)" and "length (ascii_chars conv) \<le> 2 ^ 24"
    and "\<forall>v \<in> set row. 0 \<le> v \<and> v \<le> 1"
  shows "convert_row conv dt row =
    Inr (map (\<lambda>v. ascii_chars conv !
                 nat \<lfloor>fl (precision dt) (v * real (length (ascii_chars conv) - 1))\<rfloor>) row)"
  unfolding convert_row_def
proof (rule sequence_err_map_Inr)
  fix v assume "v \<in> set row"
  then have v: "0 \<le> v" "v \<le> 1" using assms(3) by auto
  define m where "m = int (length (ascii_chars conv) - 1)"
  have e: "char_count conv - 1 = m"
    using assms(1) unfolding char_count_def m_def by simp
  have r: "real_of_int m = real (length (ascii_chars conv) - 1)"
    unfolding m_def by simp
  have m: "0 \<le> m" unfolding m_def by simp
  have lt: "m < int (length (ascii_chars conv))"
    using assms(1) unfolding m_def by simp
  have "length (ascii_chars conv) \<le> 16777216" using assms(2) by simp
  then have "int (length (ascii_chars conv)) \<le> 2 ^ 24" by simp
  then have m24: "m < 2 ^ 24" using lt by simp
  define z where "z = np_clip (astype_int32 (fl (precision dt) (v * fl (precision dt) (real_of_int m)))) 0 m"
  note t = float_index[OF v m m24, of dt, folded z_def]
  have i: "0 \<le> z" "z < int (length (ascii_chars conv))"
    using t lt by simp_all
  have "getitem (ascii_chars conv) z = Inr (ascii_chars conv ! nat \<lfloor>fl (precision dt) (v * real_of_int m)\<rfloor>)"
    using getitem_in_range[OF i] t(1) by simp
  then show "getitem (ascii_chars conv)
       (np_clip (astype_int32 (fl (precision dt) (v * fl (precision dt) (real_of_int (char_count conv - 1)))))
          0 (char_count conv - 1))
      = Inr (ascii_chars conv ! nat \<lfloor>fl (precision dt) (v * real (length (ascii_chars conv) - 1))\<rfloor>)"
    unfolding e z_def r .
qed

lemma convert_frame_chunk_index:
  assumes "1 \<le> length (ascii_chars conv)" and "length (ascii_chars conv) \<le> 2 ^ 24"
    and "\<forall>row \<in> set grid. \<forall>v \<in> set row. 0 \<le> v \<and> v \<le> 1"
  shows "convert_frame_chunk conv dt grid start_row =
    Inr (map (map (\<lambda>v. ascii_chars conv !
                 nat \<lfloor>fl (precision dt) (v * real (length (ascii_chars conv) - 1))\<rfloor>)) grid)"
  unfolding convert_frame_chunk_def
  by (rule sequence_err_map_Inr) (use assms in \<open>simp add: convert_row_index\<close>)

lemma fl_small_exact:
  "fl (precision dt) 9 = 9" "fl (precision dt) (9 / 2) = 9 / 2" "fl (precision dt) (27 / 4) = 27 / 4"
  "fl (precision dt) (9 / 4) = 9 / 4"
proof -
  have b: "\<bar>k\<bar> < 2 ^ precision dt" if "\<bar>k\<bar> < 2 ^ 24" for k :: int
    using that precision_ge[of dt] by linarith
  show "fl (precision dt) 9 = 9"
    using fl_exact[of 9 "precision dt" 0] b[of 9] by simp
  show "fl (precision dt) (9 / 2) = 9 / 2"
    using fl_exact[of 9 "precision dt" "- 1"] b[of 9] by (simp add: power_int_minus)
  show "fl (precision dt) (27 / 4) = 27 / 4"
    using fl_exact[of 27 "precision dt" "- 2"] b[of 27] by (simp add: power_int_minus)
  show "fl (precision dt) (9 / 4) = 9 / 4"
    using fl_exact[of 9 "precision dt" "- 2"] b[of 9] by (simp add: power_int_minus)
qed

text \<open>
  C1 (amended).  For every palette of at least 2 and at most \<open>2^24\<close> characters and every
  brightness grid with values in [0,1], of element type float32 or float64, the mapper
  emits for the value \<open>v\<close> the character \<open>palette[index]\<close>, where \<open>index\<close> is the product
  \<open>v * (len(palette) - 1)\<close>, computed in the element type of the grid, truncated
  (\<open>astype(np.int32)\<close>), not rounded to the nearest integer.  The index is the floor of
  the exact product, or the integer just above it when the float product is rounded up to
  that integer, and it lies in \<open>[0, len(palette) - 1]\<close>.  For the 10-character palette of
  MINIMAL the values 0.0, 0.5 and 1.0 map to the characters at the indices 0, 4 and 9.
\<close>

theorem character_mapper_truncates:
  assumes "2 \<le> length (ascii_chars conv)" and "length (ascii_chars conv) \<le> 2 ^ 24"
    and "\<forall>row \<in> set grid. \<forall>v \<in> set row. 0 \<le> v \<and> v \<le> 1"
  shows "convert_frame_chunk conv dt grid start_row =
           Inr (map (map (\<lambda>v. ascii_chars conv !
                  nat \<lfloor>fl (precision dt) (v * real (length (ascii_chars conv) - 1))\<rfloor>)) grid)
       \<and> (\<forall>row \<in> set grid. \<forall>v \<in> set row.
             \<lfloor>v * real (length (ascii_chars conv) - 1)\<rfloor>
               \<le> \<lfloor>fl (precision dt) (v * real (length (ascii_chars conv) - 1))\<rfloor>
           \<and> \<lfloor>fl (precision dt) (v * real (length (ascii_chars conv) - 1))\<rfloor>
               \<le> \<lceil>v * real (length (ascii_chars conv) - 1)\<rceil>
           \<and> nat \<lfloor>fl (precision dt) (v * real (length (ascii_chars conv) - 1))\<rfloor>
               \<le> length (ascii_chars conv) - 1)
       \<and> convert_frame_chunk (conv\<lparr>ascii_chars := style_value MINIMAL\<rparr>) dt [[0, 1 / 2, 1]] start_row =
           Inr [[style_value MINIMAL ! 0, style_value MINIMAL ! 4, style_value MINIMAL ! 9]]"
proof -
  have n: "1 \<le> length (ascii_chars conv)" using assms(1) by simp
  have a: "convert_frame_chunk conv dt grid start_row =
           Inr (map (map (\<lambda>v. ascii_chars conv !
                  nat \<lfloor>fl (precision dt) (v * real (length (ascii_chars conv) - 1))\<rfloor>)) grid)"
    by (rule convert_frame_chunk_index[OF n assms(2,3)])
  have b: "\<lfloor>v * real (length (ascii_chars conv) - 1)\<rfloor>
               \<le> \<lfloor>fl (precision dt) (v * real (length (ascii_chars conv) - 1))\<rfloor>
           \<and> \<lfloor>fl (precision dt) (v * real (length (ascii_chars conv) - 1))\<rfloor>
               \<le> \<lceil>v * real (length (ascii_chars conv) - 1)\<rceil>
           \<and> nat \<lfloor>fl (precision dt) (v * real (length (ascii_chars conv) - 1))\<rfloor>
               \<le> length (ascii_chars conv) - 1"
    if "row \<in> set grid" "v \<in> set row" for row v
  proof -
    have v: "0 \<le> v" "v \<le> 1" using assms(3) that by auto
    define m where "m = int (length (ascii_chars conv) - 1)"
    have r: "real_of_int m = real (length (ascii_chars conv) - 1)" unfolding m_def by simp
    have m: "0 \<le> m" unfolding m_def by simp
    have "length (ascii_chars conv) \<le> 16777216" using assms(2) by simp
    then have m24: "m < 2 ^ 24" using n unfolding m_def by simp
    note t = float_index[OF v m m24, of dt, unfolded r]
    have "nat \<lfloor>fl (precision dt) (v * real (length (ascii_chars conv) - 1))\<rfloor> \<le> nat m"
      using t(3) by simp
    then show ?thesis using t(4,5) unfolding m_def by simp
  qed
  have c: "convert_frame_chunk (conv\<lparr>ascii_chars := style_value MINIMAL\<rparr>) dt [[0, 1 / 2, 1]] start_row =
           Inr [[style_value MINIMAL ! 0, style_value MINIMAL ! 4, style_value MINIMAL ! 9]]"
  proof -
    have "convert_frame_chunk (conv\<lparr>ascii_chars := style_value MINIMAL\<rparr>) dt [[0, 1 / 2, 1]] start_row =
        Inr (map (map (\<lambda>v. ascii_chars (conv\<lparr>ascii_chars := style_value MINIMAL\<rparr>) !
                  nat \<lfloor>fl (precision dt) (v * real (length (ascii_chars (conv\<lparr>ascii_chars := style_value MINIMAL\<rparr>)) - 1))\<rfloor>))
               [[0, 1 / 2, 1]])"
      by (rule convert_frame_chunk_index) simp_all
    then show ?thesis by (simp add: fl_zero fl_small_exact)
  qed
  show ?thesis using a b c by blast
qed

text \<open>
  The binary64 nearest to 1/3 on the palette of MINIMAL: the exact product lies below 3,
  the float product is 3, and the mapper emits the character at index 3.  The float32
  \<open>4862961 / 2^26\<close> on the 70 characters of DETAILED: the exact product lies below 5, the
  float product is 5, and the mapper emits the character at index 5.
\<close>

lemma fl_third_times_nine:
  "fl 53 (54043195528445949 / 18014398509481984) = 3"
proof -
  have u: "(1 / 2251799813685248 :: real) = 2 powi (1 - int 53 + 1)"
    by (simp add: power_int_minus)
  have r: "6755399441055744 = rne ((54043195528445949 / 18014398509481984) / (1 / 2251799813685248))"
    unfolding rne_def by (simp add: Let_def)
  have "fl 53 (54043195528445949 / 18014398509481984) = of_int 6755399441055744 * (1 / 2251799813685248)"
    by (rule fl_eval[OF _ _ u r]) simp_all
  then show ?thesis by simp
qed

lemma fl_below_five:
  "fl 24 (335544309 / 67108864) = 5"
proof -
  have u: "(1 / 2097152 :: real) = 2 powi (2 - int 24 + 1)"
    by (simp add: power_int_minus)
  have r: "10485760 = rne ((335544309 / 67108864) / (1 / 2097152))"
    unfolding rne_def by (simp add: Let_def)
  have "fl 24 (335544309 / 67108864) = of_int 10485760 * (1 / 2097152)"
    by (rule fl_eval[OF _ _ u r]) simp_all
  then show ?thesis by simp
qed

theorem character_mapper_truncates_witness:
  "convert_frame_chunk
     \<lparr>style = MINIMAL, algorithm = LUMINANCE, use_threading = True, max_workers = 4,
      ascii_chars = style_value MINIMAL\<rparr> Float64
     [[0, 6004799503160661 / 18014398509481984, 3 / 4, 1]] 0
   = Inr [[32, 45, 42, 64]]
   \<and> convert_frame_chunk
     \<lparr>style = DETAILED, algorithm = LUMINANCE, use_threading = True, max_workers = 4,
      ascii_chars = style_value DETAILED\<rparr> Float32 [[4862961 / 67108864]] 0
   = Inr [[34]]"
proof -
  define conv where "conv = \<lparr>style = MINIMAL, algorithm = LUMINANCE, use_threading = True,
      max_workers = 4, ascii_chars = style_value MINIMAL\<rparr>"
  have h1: "2 \<le> length (ascii_chars conv)" unfolding conv_def by simp
  have h2: "length (ascii_chars conv) \<le> 2 ^ 24" unfolding conv_def by simp
  have h3: "\<forall>row \<in> set [[0, 6004799503160661 / 18014398509481984, 3 / 4, 1 :: real]].
              \<forall>v \<in> set row. 0 \<le> v \<and> v \<le> 1" by simp
  have "convert_frame_chunk conv Float64 [[0, 6004799503160661 / 18014398509481984, 3 / 4, 1]] 0 =
      Inr (map (map (\<lambda>v. ascii_chars conv !
             nat \<lfloor>fl (precision Float64) (v * real (length (ascii_chars conv) - 1))\<rfloor>))
        [[0, 6004799503160661 / 18014398509481984, 3 / 4, 1]])"
    using character_mapper_truncates[OF h1 h2 h3, of Float64 0] by blast
  then have first: "convert_frame_chunk conv Float64
      [[0, 6004799503160661 / 18014398509481984, 3 / 4, 1]] 0 = Inr [[32, 45, 42, 64]]"
    unfolding conv_def
    by (simp add: fl_zero fl_third_times_nine fl_small_exact[of Float64, unfolded precision.simps])
  define cd where "cd = \<lparr>style = DETAILED, algorithm = LUMINANCE, use_threading = True,
      max_workers = 4, ascii_chars = style_value DETAILED\<rparr>"
  have d1: "2 \<le> length (ascii_chars cd)" unfolding cd_def by simp
  have d2: "length (ascii_chars cd) \<le> 2 ^ 24" unfolding cd_def by simp
  have d3: "\<forall>row \<in> set [[4862961 / 67108864 :: real]]. \<forall>v \<in> set row. 0 \<le> v \<and> v \<le> 1" by simp
  have "convert_frame_chunk cd Float32 [[4862961 / 67108864]] 0 =
      Inr (map (map (\<lambda>v. ascii_chars cd !
             nat \<lfloor>fl (precision Float32) (v * real (length (ascii_chars cd) - 1))\<rfloor>))
        [[4862961 / 67108864]])"
    using character_mapper_truncates[OF d1 d2 d3, of Float32 0] by blast
  then have second: "convert_frame_chunk cd Float32 [[4862961 / 67108864]] 0 = Inr [[34]]"
    unfolding cd_def by (simp add: fl_below_five)
  show ?thesis using first second unfolding conv_def cd_def by simp
qed

text \<open>
  The claim as stated, with \<open>round\<close>, fails at the brightness 0.75 on the palette of
  MINIMAL: \<open>0.75 * 9 = 6.75\<close> rounds to 7, and the mapper emits the character at index 6.
\<close>

theorem character_mapper_round_counterexample:
  "convert_frame_chunk
     \<lparr>style = MINIMAL, algorithm = LUMINANCE, use_threading = True, max_workers = 4,
      ascii_chars = style_value MINIMAL\<rparr> Float32 [[3 / 4]] 0
   = Inr [[style_value MINIMAL ! 6]]
   \<and> np_clip (round (3 / 4 * real (length (style_value MINIMAL) - 1))) 0
        (int (length (style_value MINIMAL)) - 1) = (7 :: int)
   \<and> style_value MINIMAL ! 6 \<noteq> style_value MINIMAL ! 7"
proof -
  define conv where "conv = \<lparr>style = MINIMAL, algorithm = LUMINANCE, use_threading = True,
      max_workers = 4, ascii_chars = style_value MINIMAL\<rparr>"
  have "convert_frame_chunk conv Float32 [[3 / 4]] 0 =
      Inr (map (map (\<lambda>v. ascii_chars conv !
             nat \<lfloor>fl (precision Float32) (v * real (length (ascii_chars conv) - 1))\<rfloor>)) [[3 / 4]])"
    by (rule convert_frame_chunk_index) (simp_all add: conv_def)
  then have "convert_frame_chunk conv Float32 [[3 / 4]] 0 = Inr [[style_value MINIMAL ! 6]]"
    unfolding conv_def by (simp add: fl_small_exact[of Float32, unfolded precision.simps])
  moreover have "np_clip (round (3 / 4 * real (length (style_value MINIMAL) - 1))) 0
        (int (length (style_value MINIMAL)) - 1) = (7 :: int)"
    unfolding np_clip_def round_def by simp
  ultimately show ?thesis unfolding conv_def by simp
qed

section \<open>Properties of the row-chunked mapping\<close>

lemma sequence_err_append:
  "sequence_err (xs @ ys) =
     bind_err (sequence_err xs) (\<lambda>a. bind_err (sequence_err ys) (\<lambda>b. Inr (a @ b)))"
  by (induction xs) (auto simp: bind_err_def split: sum.splits)

lemma convert_frame_chunk_append:
  "convert_frame_chunk conv dt (xs @ ys) i =
     bind_err (convert_frame_chunk conv dt xs j)
       (\<lambda>a. bind_err (convert_frame_chunk conv dt ys k) (\<lambda>b. Inr (a @ b)))"
  unfolding convert_frame_chunk_def by (simp add: sequence_err_append)

text \<open>Converting chunk by chunk and concatenating is converting the concatenation.\<close>

lemma convert_chunks_concat:
  "bind_err (sequence_err (map (\<lambda>c. convert_frame_chunk conv dt (fst c) (snd c)) cs)) (\<lambda>rs. Inr (concat rs))
     = convert_frame_chunk conv dt (concat (map fst cs)) 0"
proof (induction cs)
  case Nil
  show ?case by (simp add: bind_err_def convert_frame_chunk_def)
next
  case (Cons c cs)
  have "convert_frame_chunk conv dt (concat (map fst (c # cs))) 0
      = bind_err (convert_frame_chunk conv dt (fst c) (snd c))
          (\<lambda>a. bind_err (convert_frame_chunk conv dt (concat (map fst cs)) 0) (\<lambda>b. Inr (a @ b)))"
    by (simp add: convert_frame_chunk_append[of conv dt "fst c" _ 0 "snd c" 0])
  also have "\<dots> = bind_err (sequence_err (map (\<lambda>c. convert_frame_chunk conv dt (fst c) (snd c)) (c # cs)))
                     (\<lambda>rs. Inr (concat rs))"
    unfolding Cons.IH[symmetric]
    by (simp add: bind_err_def split: sum.splits)
  finally show ?case by simp
qed

lemma concat_chunks_take:
  "concat (map (\<lambda>k. take c (drop (k * c) xs)) [0..<n]) = take (n * c) xs"
proof (induction n)
  case 0
  show ?case by simp
next
  case (Suc n)
  have "Suc n * c = n * c + c" by simp
  then have "take (Suc n * c) xs = take (n * c) xs @ take c (drop (n * c) xs)"
    by (simp only: take_add)
  then show ?case using Suc by simp
qed

lemma slices_cover:
  assumes "1 \<le> chunk_size" "int (length xs) \<le> height"
  shows "concat (map (\<lambda>i. slice xs i (i + chunk_size)) (py_range height chunk_size)) = xs"
proof -
  define c where "c = nat chunk_size"
  define n where "n = nat ((height + chunk_size - 1) div chunk_size)"
  have cs: "chunk_size = int c" using assms(1) unfolding c_def by simp
  have sl: "slice xs (int k * chunk_size) (int k * chunk_size + chunk_size) = take c (drop (k * c) xs)" for k
    unfolding slice_def cs by (simp add: nat_mult_distrib)
  have "concat (map (\<lambda>i. slice xs i (i + chunk_size)) (py_range height chunk_size))
      = concat (map (\<lambda>k. take c (drop (k * c) xs)) [0..<n])"
    unfolding py_range_def n_def by (simp add: comp_def sl)
  also have "\<dots> = take (n * c) xs" by (rule concat_chunks_take)
  also have "\<dots> = xs"
  proof -
    have pos: "0 < chunk_size" using assms(1) by simp
    have "height \<le> ((height + chunk_size - 1) div chunk_size) * chunk_size"
    proof -
      have "(height + chunk_size - 1) mod chunk_size \<le> chunk_size - 1"
        using pos_mod_bound[OF pos, of "height + chunk_size - 1"] by simp
      moreover have "((height + chunk_size - 1) div chunk_size) * chunk_size
          = (height + chunk_size - 1) - (height + chunk_size - 1) mod chunk_size"
        by (simp add: minus_mod_eq_div_mult)
      ultimately show ?thesis by simp
    qed
    moreover have "0 \<le> height" using assms(2) by (smt (verit) of_nat_0_le_iff)
    then have "0 \<le> (height + chunk_size - 1) div chunk_size"
      using pos by (simp add: pos_imp_zdiv_nonneg_iff)
    ultimately have "height \<le> int (n * c)"
      unfolding n_def cs by simp
    then have "int (length xs) \<le> int (n * c)" using assms(2) by linarith
    then have "length xs \<le> n * c" by (simp only: of_nat_le_iff)
    then show ?thesis by simp
  qed
  finally show ?thesis .
qed

lemma convert_chunks_threaded_eq:
  assumes "int (length brightness) \<le> height" and "max_workers conv \<noteq> 0"
  shows "convert_chunks_threaded conv dt brightness height = convert_frame_chunk conv dt brightness 0"
proof -
  define chunk_size where "chunk_size = max 1 (height div max_workers conv)"
  have cs: "1 \<le> chunk_size" unfolding chunk_size_def by simp
  define cs' where "cs' = map (\<lambda>i. (slice brightness i (i + chunk_size), i)) (py_range height chunk_size)"
  have "convert_chunks_threaded conv dt brightness height
      = bind_err (sequence_err (map (\<lambda>c. convert_frame_chunk conv dt (fst c) (snd c)) cs')) (\<lambda>rs. Inr (concat rs))"
    using assms(2) unfolding convert_chunks_threaded_def cs'_def chunk_size_def
    by (simp add: Let_def comp_def)
  also have "\<dots> = convert_frame_chunk conv dt (concat (map fst cs')) 0"
    by (rule convert_chunks_concat)
  also have "concat (map fst cs') = brightness"
    unfolding cs'_def using slices_cover[OF cs assms(1)] by (simp add: comp_def)
  finally show ?thesis .
qed

text \<open>A converter constructed with threading has a positive worker count.\<close>

lemma ASCIIConverter_init_workers:
  "ASCIIConverter_init st alg True workers = Inr c \<Longrightarrow> 0 < max_workers c"
  unfolding ASCIIConverter_init_def by (auto split: if_splits)

text \<open>
  C6.  For every brightness grid, of either element type, of at most \<open>height\<close> rows (the
  resizer never returns
  more rows than the requested height, \<open>resize_frame_smart_rows_le\<close> below) and every
  non-zero worker count (the constructor admits no other with threading), partitioning the
  rows into the contiguous chunks of the threaded branch, mapping each chunk on its own
  and concatenating the results in row order gives exactly the lines of one
  single-threaded pass of \<open>convert_frame_chunk\<close> over the whole grid, and so the same
  joined text.
\<close>

theorem chunked_mapping_equals_single_pass:
  assumes "int (length brightness) \<le> height" and "max_workers conv \<noteq> 0"
  shows "convert_chunks_threaded conv dt brightness height = convert_frame_chunk conv dt brightness 0
       \<and> bind_err (convert_chunks_threaded conv dt brightness height) (\<lambda>ls. Inr (join_lines ls))
         = bind_err (convert_frame_chunk conv dt brightness 0) (\<lambda>ls. Inr (join_lines ls))"
  using convert_chunks_threaded_eq[OF assms] by simp

theorem chunked_mapping_equals_single_pass_witness:
  "convert_chunks_threaded
     \<lparr>style = MINIMAL, algorithm = LUMINANCE, use_threading = True, max_workers = 2,
      ascii_chars = style_value MINIMAL\<rparr> Float32
     [[0, 1], [1 / 2, 1], [1, 0], [1 / 4, 0], [3 / 4, 1]] 5
   = Inr [[32, 64], [61, 64], [64, 32], [58, 32], [42, 64]]"
proof -
  define conv where "conv = \<lparr>style = MINIMAL, algorithm = LUMINANCE, use_threading = True,
      max_workers = 2, ascii_chars = style_value MINIMAL\<rparr>"
  define grid :: "real list list" where "grid = [[0, 1], [1 / 2, 1], [1, 0], [1 / 4, 0], [3 / 4, 1]]"
  have h1: "int (length grid) \<le> 5" unfolding grid_def by simp
  have h2: "max_workers conv \<noteq> 0" unfolding conv_def by simp
  have "convert_chunks_threaded conv Float32 grid 5 = convert_frame_chunk conv Float32 grid 0"
    using chunked_mapping_equals_single_pass[OF h1 h2] by blast
  also have "\<dots> = Inr (map (map (\<lambda>v. ascii_chars conv !
                 nat \<lfloor>fl (precision Float32) (v * real (length (ascii_chars conv) - 1))\<rfloor>)) grid)"
    by (rule convert_frame_chunk_index) (simp_all add: conv_def grid_def)
  also have "\<dots> = Inr [[32, 64], [61, 64], [64, 32], [58, 32], [42, 64]]"
    unfolding conv_def grid_def
    by (simp add: fl_zero fl_small_exact[of Float32, unfolded precision.simps])
  finally show ?thesis unfolding conv_def grid_def .
qed

section \<open>Properties of the geometry resizer\<close>



lemma resized_to_shape:
  "resized_to px src w h = Inr r \<Longrightarrow> int (fr_rows r) = h \<and> int (fr_cols r) = w \<and> fr_color r = fr_color src"
  unfolding resized_to_def by (auto split: if_splits)



lemma super_resolution_resize_shape:
  assumes "super_resolution_resize cv fr tw th = Inr r"
  shows "int (fr_rows r) = th \<and> int (fr_cols r) = tw"
  using assms unfolding super_resolution_resize_def cv2_resize_def
  by (auto simp: bind_err_def split: option.splits sum.splits if_splits dest: resized_to_shape)






lemma f64_pos: "0 < x \<Longrightarrow> 0 < f64 x"
  unfolding f64_def by (rule fl_pos) simp_all




text \<open>The two cases of the fitted size.\<close>

lemma fitted_size_cases:
  fixes tw th :: int
  assumes "0 < fr_rows fr" "0 < fr_cols fr"
  defines "a \<equiv> f64 (real (fr_cols fr) / real (fr_rows fr))"
  defines "h0 \<equiv> py_int (f64 (f64 (f64 (real_of_int tw) / a) * 0.5))"
  shows "fitted_size fr tw th =
           Inr (if h0 > th then py_int (f64 (f64 (f64 (real_of_int th) * a) / 0.5)) else tw,
                if h0 > th then th else h0)"
    and "0 < a"
proof -
  have "0 < real (fr_cols fr) / real (fr_rows fr)" using assms(1,2) by simp
  then show a: "0 < a" unfolding a_def by (rule f64_pos)
  then have "a \<noteq> 0" by simp
  then show "fitted_size fr tw th =
           Inr (if h0 > th then py_int (f64 (f64 (f64 (real_of_int th) * a) / 0.5)) else tw,
                if h0 > th then th else h0)"
    using assms(1) unfolding fitted_size_def a_def[symmetric] Let_def h0_def[symmetric]
    by simp
qed

lemma fitted_size_rows_le:
  assumes "0 < fr_rows fr" "0 < fr_cols fr" "fitted_size fr tw th = Inr (w, h)"
  shows "h \<le> th"
  using assms(3) unfolding fitted_size_cases(1)[OF assms(1,2)]
  by (auto split: if_splits)



lemma resize_frame_smart_shape:
  assumes "resize_frame_smart cv fr tw th = Inr r"
  shows "\<exists>w h. fitted_size fr tw th = Inr (w, h) \<and> int (fr_cols r) = w \<and> int (fr_rows r) = h"
proof -
  obtain w h where f: "fitted_size fr tw th = Inr (w, h)"
    using assms unfolding resize_frame_smart_def bind_err_def
    by (cases "fitted_size fr tw th") auto
  have "int (fr_cols r) = w \<and> int (fr_rows r) = h"
    using assms unfolding resize_frame_smart_def f bind_err_def
      edge_preserving_resize_def cv2_resize_def
    by (auto simp: Let_def split: if_splits dest: resized_to_shape super_resolution_resize_shape)
  then show ?thesis using f by simp
qed








section \<open>The conversion pipeline with and without threads\<close>

text \<open>
  The grid that reaches the character mapper has the rows of the resized frame, at most
  \<open>height\<close> of them, so the threaded branch sees every row: for a converter with a
  non-zero worker count the whole of \<open>convert_frame_to_ascii\<close> returns the same text or
  raises the same exception with threading on and off.
\<close>

lemma length_rows_of: "length (rows_of f) = fr_rows f"
  unfolding rows_of_def by simp

lemma calculate_brightness_luminance_rows:
  "algorithm conv = LUMINANCE \<Longrightarrow> calculate_brightness cv conv f = Inr g \<Longrightarrow> fr_rows g = fr_rows f"
  unfolding calculate_brightness_def gray_frame_def
  by (auto simp: Let_def split: if_splits)

lemma resize_frame_smart_rows_le:
  assumes "frame_size fr \<noteq> 0" and "resize_frame_smart cv fr width height = Inr r"
  shows "int (fr_rows r) \<le> height"
proof -
  have p: "0 < fr_rows fr" "0 < fr_cols fr"
    using assms(1) unfolding frame_size_def by simp_all
  obtain w h where f: "fitted_size fr width height = Inr (w, h)" "int (fr_rows r) = h"
    using resize_frame_smart_shape[OF assms(2)] by blast
  show ?thesis using fitted_size_rows_le[OF p f(1)] f(2) by simp
qed

lemma convert_frame_to_ascii_threading:
  assumes "max_workers conv \<noteq> 0"
  shows "convert_frame_to_ascii cv (conv\<lparr>use_threading := True\<rparr>) frame_opt width height_opt enhance_contrast
       = convert_frame_to_ascii cv (conv\<lparr>use_threading := False\<rparr>) frame_opt width height_opt enhance_contrast"
proof (cases frame_opt)
  case None
  then show ?thesis unfolding convert_frame_to_ascii_def by simp
next
  case (Some fr)
  show ?thesis
  proof (cases "frame_size fr = 0")
    case True
    then show ?thesis unfolding convert_frame_to_ascii_def Some by simp
  next
    case False
    define height where "height = max 1 (case height_opt of
        None \<Rightarrow> py_int (f64 (f64 (real_of_int (int (fr_rows fr) * width) / real (fr_cols fr)) * 0.5))
      | Some h \<Rightarrow> h)"
    define ct where "ct = conv\<lparr>use_threading := True\<rparr>"
    define cf where "cf = conv\<lparr>use_threading := False\<rparr>"
    have mw: "max_workers ct \<noteq> 0" using assms unfolding ct_def by simp
    have chunk: "convert_frame_chunk ct Float32 b 0 = convert_frame_chunk cf Float32 b 0" for b
      unfolding convert_frame_chunk_def convert_row_def char_count_def ct_def cf_def by simp
    have bright: "calculate_brightness cv ct f = calculate_brightness cv cf f" for f
      unfolding calculate_brightness_def ct_def cf_def by simp
    have alg: "algorithm ct = algorithm cf" unfolding ct_def cf_def by simp
    define S where "S c b = (if use_threading c \<and> height > 50
                  then convert_chunks_threaded c Float32 b height
                  else convert_frame_chunk c Float32 b 0)" for c b
    have stage: "S ct b = S cf b" if "int (length b) \<le> height" for b
      using convert_chunks_threaded_eq[OF that mw] chunk
      unfolding S_def ct_def cf_def by simp
    show ?thesis
    proof (cases "resize_frame_smart cv fr (max 1 width) height")
      case (Inl e)
      then show ?thesis
        using False unfolding convert_frame_to_ascii_def Some height_def
        by (simp add: Let_def bind_err_def)
    next
      case (Inr r)
      have rows: "int (fr_rows r) \<le> height"
        by (rule resize_frame_smart_rows_le[OF False Inr])
      define gray_t where "gray_t = (if fr_color r then
                          (if algorithm ct = LUMINANCE then calculate_brightness cv ct r
                           else Inr (cvtColor_gray cv r))
                        else Inr r)"
      have gray_eq: "(if fr_color r then
                          (if algorithm cf = LUMINANCE then calculate_brightness cv cf r
                           else Inr (cvtColor_gray cv r))
                        else Inr r) = gray_t"
        unfolding gray_t_def alg bright ..
      have grows: "int (fr_rows g) \<le> height" if "gray_t = Inr g" for g
        using that rows calculate_brightness_luminance_rows[of ct cv r g]
        unfolding gray_t_def cvtColor_gray_def
        by (auto split: if_splits)
      define post where "post c gray =
             (let brightness = map (map (\<lambda>v. fl 24 (fl 24 v / 255.0))) (rows_of gray);
                  brightness = (if enhance_contrast
                                then map (map (\<lambda>v. np_clip (fl 24 (v powr 0.8)) 0 1)) brightness
                                else brightness)
              in bind_err (S c brightness) (\<lambda>ascii_lines. Inr (join_lines ascii_lines)))" for c gray
      have "convert_frame_to_ascii cv ct (Some fr) width height_opt enhance_contrast
          = bind_err gray_t (post ct)"
        using False Inr unfolding convert_frame_to_ascii_def height_def gray_t_def post_def S_def
        by (simp add: Let_def bind_err_def)
      also have "\<dots> = bind_err gray_t (post cf)"
      proof (cases gray_t)
        case (Inl e)
        then show ?thesis by (simp add: bind_err_def)
      next
        case (Inr g)
        have l: "int (length (rows_of g)) \<le> height"
          using grows[OF Inr] by (simp add: length_rows_of)
        have "post ct g = post cf g"
          unfolding post_def Let_def using l by (simp add: stage)
        then show ?thesis unfolding Inr bind_err_def by simp
      qed
      also have "\<dots> = convert_frame_to_ascii cv cf (Some fr) width height_opt enhance_contrast"
        using False \<open>resize_frame_smart cv fr (max 1 width) height = Inr r\<close>
        unfolding convert_frame_to_ascii_def height_def gray_eq[symmetric] post_def S_def
        by (simp add: Let_def bind_err_def)
      finally show ?thesis unfolding Some ct_def cf_def .
    qed
  qed
qed

section \<open>Properties of the brightness transform\<close>

text \<open>
  C4.  The brightness transform is to return a grid of the size of its input with every
  value in [0,1], as the docstring of \<open>calculate_brightness\<close> says ("Normalized brightness
  values (0-1)") and as the enhancement strategies do by clipping.  The luminance
  strategy returns the weighted sum of the channels as it is: on a frame of one white
  pixel (255, 255, 255) the grid has the size of the frame, 1 by 1, and holds 255.
\<close>

theorem luminance_brightness_not_normalised:
  "map_sum id (\<lambda>b. (fr_rows b, fr_cols b, fr_px b 0 0 0))
     (calculate_brightness flat_cv2
        \<lparr>style = DETAILED, algorithm = LUMINANCE, use_threading = True, max_workers = 4,
         ascii_chars = style_value DETAILED\<rparr>
        (flat_frame 1 1 255))
   = Inr (1, 1, 255)"
  unfolding calculate_brightness_def gray_frame_def flat_frame_def
  by (simp add: Let_def)

section \<open>The empty frame\<close>

text \<open>
  C10.  For a frame that is \<open>None\<close> or has no samples, \<open>convert_frame_to_ascii\<close> returns
  the empty string and raises nothing, for every width, height, contrast flag and
  converter.
\<close>

theorem empty_frame_gives_empty_string:
  assumes "frame_opt = None \<or> (\<exists>fr. frame_opt = Some fr \<and> frame_size fr = 0)"
  shows "convert_frame_to_ascii cv conv frame_opt width height_opt enhance_contrast = Inr []"
  using assms unfolding convert_frame_to_ascii_def by auto

theorem empty_frame_gives_empty_string_witness:
  "convert_frame_to_ascii flat_cv2
     \<lparr>style = DETAILED, algorithm = LUMINANCE, use_threading = True, max_workers = 4,
      ascii_chars = style_value DETAILED\<rparr>
     (Some (flat_frame 0 640 0)) 80 (Some 24) True = Inr []
   \<and> frame_size (flat_frame 0 640 0) = 0"
proof -
  have z: "frame_size (flat_frame 0 640 0) = 0"
    unfolding frame_size_def flat_frame_def by simp
  then have "Some (flat_frame 0 640 0) = None
      \<or> (\<exists>fr. Some (flat_frame 0 640 0) = Some fr \<and> frame_size fr = 0)"
    by simp
  from empty_frame_gives_empty_string[OF this] z show ?thesis by simp
qed

section \<open>Properties of the runtime controls\<close>

lemma change_speed_range:
  "1 / 10 \<le> playback_speed (change_speed p d) \<and> playback_speed (change_speed p d) \<le> 5"
  unfolding change_speed_def by simp

lemma playback_speed_stop: "playback_speed (stop p) = playback_speed p"
  unfolding stop_def by simp

lemma playback_speed_toggle_pause: "playback_speed (toggle_pause p) = playback_speed p"
  unfolding toggle_pause_def by simp

lemma playback_speed_restart: "playback_speed (restart p) = playback_speed p"
  unfolding restart_def by (simp split: option.splits)

lemma process_key_speed:
  assumes "1 / 10 \<le> playback_speed p \<and> playback_speed p \<le> 5"
  shows "1 / 10 \<le> playback_speed (process_key p k) \<and> playback_speed (process_key p k) \<le> 5"
  unfolding process_key_def
  using assms change_speed_range[of p "0.1"] change_speed_range[of p "- 0.1"]
  by (simp add: playback_speed_stop playback_speed_toggle_pause playback_speed_restart)

lemma keys_speed:
  "1 / 10 \<le> playback_speed p \<and> playback_speed p \<le> 5 \<Longrightarrow>
   1 / 10 \<le> playback_speed (foldl process_key p keys) \<and> playback_speed (foldl process_key p keys) \<le> 5"
proof (induction keys arbitrary: p)
  case Nil
  then show ?case by simp
next
  case (Cons k keys)
  show ?case using Cons.IH[OF process_key_speed[OF Cons.prems]] by simp
qed

text \<open>
  C8.  From a freshly constructed player, whose speed is 1.0, after every sequence of
  keys of the runtime controls (plus and equals call \<open>change_speed(0.1)\<close>, minus calls
  \<open>change_speed(-0.1)\<close>, the other keys leave the speed alone) the playback speed lies in
  [0.1, 5.0].
\<close>

theorem speed_stays_in_bounds:
  "1 / 10 \<le> playback_speed (foldl process_key (ASCIIVideoPlayer_init st alg rh n) keys)
   \<and> playback_speed (foldl process_key (ASCIIVideoPlayer_init st alg rh n) keys) \<le> 5"
  by (rule keys_speed) (simp add: ASCIIVideoPlayer_init_def)

theorem speed_stays_in_bounds_witness:
  "playback_speed (foldl process_key (ASCIIVideoPlayer_init DETAILED LUMINANCE True 10)
     [CHR ''+'', CHR ''-'', CHR ''q'']) \<le> 5
   \<and> 1 / 10 \<le> playback_speed (foldl process_key (ASCIIVideoPlayer_init DETAILED LUMINANCE True 10)
     [CHR ''+'', CHR ''-'', CHR ''q''])"
  using speed_stays_in_bounds[of DETAILED LUMINANCE True 10 "[CHR ''+'', CHR ''-'', CHR ''q'']"]
  by blast

section \<open>Loading media\<close>

text \<open>
  C9.  For every path that does not exist, \<open>load_media\<close> returns \<open>False\<close> and leaves the
  player exactly as it was; in particular a player that is not playing is still not
  playing.
\<close>

theorem load_missing_media_fails:
  assumes "\<not> path_exists env path" and "\<not> is_playing p"
  shows "load_media env p path = (False, p) \<and> \<not> is_playing (snd (load_media env p path))"
  using assms unfolding load_media_def by simp

theorem load_missing_media_fails_witness:
  "load_media sample_env (ASCIIVideoPlayer_init DETAILED LUMINANCE True 10) ''missing.mp4''
     = (False, ASCIIVideoPlayer_init DETAILED LUMINANCE True 10)"
proof -
  have e: "\<not> path_exists sample_env ''missing.mp4''"
    unfolding sample_env_def by simp
  have i: "\<not> is_playing (ASCIIVideoPlayer_init DETAILED LUMINANCE True 10)"
    unfolding ASCIIVideoPlayer_init_def by simp
  from load_missing_media_fails[OF e i] show ?thesis by simp
qed

section \<open>Properties of the frame buffer\<close>

























end
